theory Spec2Isabelle
  imports Main
begin

section \<open>The remittance-advice transaction set (edi\_835\_parser)\<close>

text \<open>
  A shallow embedding of \<^verbatim>\<open>edi_835_parser/transaction_set/transaction_set.py\<close>:
  the class \<^verbatim>\<open>TransactionSet\<close> with its payer lookup, the flattening to rows
  (\<^verbatim>\<open>to_dataframe\<close>, \<^verbatim>\<open>add_line_item\<close>, \<^verbatim>\<open>serialize_service\<close>) and the
  builder (\<^verbatim>\<open>build\<close>, \<^verbatim>\<open>build_attribute\<close>).

  Python exceptions are values: a function that can raise returns \<open>error + 'a\<close>, with
  \<open>Inl\<close> the exception. \<open>AssertionError\<close> is the failed \<^verbatim>\<open>assert\<close> of the payer
  lookup; \<open>AttributeError\<close> is an attribute read on \<^verbatim>\<open>None\<close>.
\<close>

datatype error = AssertionError | AttributeError

subsection \<open>Data model\<close>

text \<open>
  Modelled from the spec: the segment and loop classes (\<^verbatim>\<open>edi_835_parser.segments.*\<close>,
  \<^verbatim>\<open>edi_835_parser.loops.*\<close>) are imported by the source file but defined elsewhere.
  The records below carry exactly the attributes that \<^verbatim>\<open>transaction_set.py\<close> reads,
  under the names it reads them by, with the shapes of the spec's data model (section 3):
  optional attributes are \<open>option\<close>s, sequences are lists. A local variable of the
  source whose name is also an attribute name is written with a prime. Dates are a type parameter
  \<open>'d\<close>; amounts and units are Python \<^verbatim>\<open>int\<close>s as \<^verbatim>\<open>add_line_item\<close> annotates them.
\<close>

record 'd date_segment =
  date :: 'd

record organization_segment =
  type :: string
  name :: string

record organization_loop =
  organization :: organization_segment

record entity_segment =
  name :: string

record claim_segment =
  index :: string

record service_segment =
  service_code :: string
  units :: int
  charge_amount :: int
  paid_amount :: int

record remark_segment =
  qualifier :: string
  code :: string

record reference_segment =
  str :: string  \<comment> \<open>what \<^verbatim>\<open>str(r)\<close> returns for the reference\<close>

record adjustment_segment =
  amount :: int
  group_code :: string
  reason_code :: string

record 'd financial_information_segment =
  transaction_date :: 'd

record 'd service_loop =
  service :: service_segment
  service_period_start :: "'d date_segment option"
  service_period_end :: "'d date_segment option"
  remark :: "remark_segment option"
  references :: "reference_segment list"
  adjustments :: "adjustment_segment list"

record 'd claim_loop =
  claim :: claim_segment
  patient :: entity_segment
  claim_statement_period_start :: "'d date_segment option"
  claim_statement_period_end :: "'d date_segment option"
  rendering_provider :: "entity_segment option"
  services :: "'d service_loop list"

text \<open>
  \<^verbatim>\<open>TransactionSet.__init__\<close> stores its four arguments. \<^verbatim>\<open>build\<close> starts
  \<^verbatim>\<open>interchange\<close> and \<^verbatim>\<open>financial_information\<close> at \<^verbatim>\<open>None\<close>, so both are options.
\<close>

record ('i, 'd) TransactionSet =
  interchange :: "'i option"
  financial_information :: "'d financial_information_segment option"
  claims :: "'d claim_loop list"
  organizations :: "organization_loop list"

subsection \<open>Payer lookup\<close>

text \<open>
  \<^verbatim>\<open>payer = [o for o in self.organizations if o.organization.type == 'payer']\<close>,
  \<^verbatim>\<open>assert len(payer) == 1\<close>, \<^verbatim>\<open>return payer[0]\<close>.
\<close>

definition payer :: "('i, 'd) TransactionSet \<Rightarrow> error + organization_loop" where
  "payer self =
     (let payer' = filter (\<lambda>o1. type (organization o1) = ''payer'') (organizations self)
      in if length payer' = 1 then Inr (payer' ! 0) else Inl AssertionError)"

subsection \<open>Rows\<close>

text \<open>
  A row is a Python \<^verbatim>\<open>dict\<close> from column name to value. A value is \<^verbatim>\<open>None\<close>, a
  string, an integer or a date.
\<close>

datatype 'd val = VNone | VStr string | VInt int | VDate 'd

type_synonym 'd row = "string \<rightharpoonup> 'd val"

definition opt_str :: "string option \<Rightarrow> 'd val" where
  "opt_str x = (case x of None \<Rightarrow> VNone | Some s \<Rightarrow> VStr s)"

text \<open>\<^verbatim>\<open>sep.join(xs)\<close> on strings.\<close>

fun join :: "string \<Rightarrow> string list \<Rightarrow> string" where
  "join sep [] = []"
| "join sep [x] = x"
| "join sep (x # y # ys) = x @ sep @ join sep (y # ys)"

text \<open>
  \<^verbatim>\<open>add_line_item\<close>: copy the dict, then set the four keys.
\<close>

definition add_line_item ::
  "'d row \<Rightarrow> int \<Rightarrow> string \<Rightarrow> string option \<Rightarrow> string option \<Rightarrow> 'd row" where
  "add_line_item service' amount' type' group' reason' =
     service'(''amount'' \<mapsto> VInt amount',
             ''type'' \<mapsto> VStr type',
             ''group'' \<mapsto> opt_str group',
             ''reason'' \<mapsto> opt_str reason')"

text \<open>
  \<^verbatim>\<open>serialize_service\<close>. The truth tests of the source are on an optional object (true
  when it is not \<^verbatim>\<open>None\<close>) and on the list of references (true when it is not empty).
  The only read that can fail is \<^verbatim>\<open>financial_information.transaction_date\<close>, when the
  transaction set was built without a financial information segment.
\<close>

definition serialize_service ::
  "'d financial_information_segment option \<Rightarrow> organization_loop \<Rightarrow> 'd claim_loop \<Rightarrow>
   'd service_loop \<Rightarrow> error + 'd row" where
  "serialize_service financial_information' payer' claim' service' =
     (let remark' =
            (case remark service' of
               None \<Rightarrow> VNone
             | Some r \<Rightarrow> VStr (qualifier r @ '': '' @ code r));
          reference =
            (if references service' \<noteq> []
             then VStr (join '', '' (map str (references service')))
             else VNone);
          start_date =
            (case service_period_start service' of
               Some d \<Rightarrow> VDate (date d)
             | None \<Rightarrow>
                 (case claim_statement_period_start claim' of
                    Some d \<Rightarrow> VDate (date d)
                  | None \<Rightarrow> VNone));
          end_date =
            (case service_period_end service' of
               Some d \<Rightarrow> VDate (date d)
             | None \<Rightarrow>
                 (case claim_statement_period_end claim' of
                    Some d \<Rightarrow> VDate (date d)
                  | None \<Rightarrow> VNone))
      in case financial_information' of
           None \<Rightarrow> Inl AttributeError
         | Some fi \<Rightarrow>
             Inr [''claim_index'' \<mapsto> VStr (index (claim claim')),
                  ''patient'' \<mapsto> VStr (entity_segment.name (patient claim')),
                  ''code'' \<mapsto> VStr (service_code (service service')),
                  ''units'' \<mapsto> VInt (units (service service')),
                  ''transaction_date'' \<mapsto> VDate (transaction_date fi),
                  ''charge_amount'' \<mapsto> VInt (charge_amount (service service')),
                  ''payer'' \<mapsto> VStr (organization_segment.name (organization payer')),
                  ''start_date'' \<mapsto> start_date,
                  ''end_date'' \<mapsto> end_date,
                  ''remark'' \<mapsto> remark',
                  ''reference'' \<mapsto> reference,
                  ''rendering_provider'' \<mapsto>
                     (case rendering_provider claim' of
                        Some e \<Rightarrow> VStr (entity_segment.name e)
                      | None \<Rightarrow> VNone)])"

subsection \<open>Flattening\<close>

text \<open>
  \<^verbatim>\<open>to_dataframe\<close>: three nested loops appending to \<^verbatim>\<open>data\<close>. Each loop is a
  recursive function over the list it walks, with \<^verbatim>\<open>data\<close> as accumulator.
  \<^verbatim>\<open>self.payer\<close> is evaluated as an argument of \<^verbatim>\<open>serialize_service\<close>, once per
  service, before the call. The result stands for \<^verbatim>\<open>pd.DataFrame(data)\<close>: the ordered
  rows.
\<close>

fun adjustments_loop ::
  "'d row \<Rightarrow> adjustment_segment list \<Rightarrow> 'd row list \<Rightarrow> 'd row list" where
  "adjustments_loop serialized_service [] data = data"
| "adjustments_loop serialized_service (adjustment # rest) data =
     adjustments_loop serialized_service rest
       (data @ [add_line_item serialized_service (amount adjustment) ''adjustment''
                  (Some (group_code adjustment)) (Some (reason_code adjustment))])"

fun services_loop ::
  "('i, 'd) TransactionSet \<Rightarrow> 'd claim_loop \<Rightarrow> 'd service_loop list \<Rightarrow> 'd row list \<Rightarrow>
   error + 'd row list" where
  "services_loop self claim' [] data = Inr data"
| "services_loop self claim' (service' # rest) data =
     (case payer self of
        Inl e \<Rightarrow> Inl e
      | Inr p \<Rightarrow>
          (case serialize_service (financial_information self) p claim' service' of
             Inl e \<Rightarrow> Inl e
           | Inr serialized_service \<Rightarrow>
               services_loop self claim' rest
                 (adjustments_loop serialized_service (adjustments service')
                    (data @ [add_line_item serialized_service
                               (paid_amount (service service'))
                               ''payment'' None None]))))"

fun claims_loop ::
  "('i, 'd) TransactionSet \<Rightarrow> 'd claim_loop list \<Rightarrow> 'd row list \<Rightarrow> error + 'd row list" where
  "claims_loop self [] data = Inr data"
| "claims_loop self (claim' # rest) data =
     (case services_loop self claim' (services claim') data of
        Inl e \<Rightarrow> Inl e
      | Inr data' \<Rightarrow> claims_loop self rest data')"

definition to_dataframe :: "('i, 'd) TransactionSet \<Rightarrow> error + 'd row list" where
  "to_dataframe self = claims_loop self (claims self) []"

section \<open>Notions used to state the properties\<close>

text \<open>
  The services of a transaction set in document order, each with its claim: the order in
  which the two outer loops of \<^verbatim>\<open>to_dataframe\<close> visit them.
\<close>

definition service_pairs :: "('i, 'd) TransactionSet \<Rightarrow> ('d claim_loop \<times> 'd service_loop) list" where
  "service_pairs self = concat (map (\<lambda>c. map (Pair c) (services c)) (claims self))"

text \<open>
  The rows that one pass of the loop body appends for a service whose serialised base
  record is \<open>base\<close>: the payment row, then one row per adjustment.
\<close>

definition service_rows :: "'d row \<Rightarrow> 'd service_loop \<Rightarrow> 'd row list" where
  "service_rows base s =
     add_line_item base (paid_amount (service s)) ''payment'' None None #
     map (\<lambda>a. add_line_item base (amount a) ''adjustment'' (Some (group_code a)) (Some (reason_code a)))
       (adjustments s)"

text \<open>
  \<open>emitted self (c, s) block\<close>: the payer lookup and the serialisation succeed for
  service \<open>s\<close> of claim \<open>c\<close>, and \<open>block\<close> is what the loop body appends.
\<close>

definition emitted :: "('i, 'd) TransactionSet \<Rightarrow> 'd claim_loop \<times> 'd service_loop \<Rightarrow> 'd row list \<Rightarrow> bool" where
  "emitted self cs block =
     (\<exists>p base. payer self = Inr p \<and>
        serialize_service (financial_information self) p (fst cs) (snd cs) = Inr base \<and>
        block = service_rows base (snd cs))"

text \<open>The \<^verbatim>\<open>amount\<close> column of a row, as summed by the reader of the table.\<close>

definition row_amount :: "'d row \<Rightarrow> int" where
  "row_amount r = (case r ''amount'' of Some (VInt n) \<Rightarrow> n | _ \<Rightarrow> 0)"

text \<open>The number of organizations of type \<^verbatim>\<open>payer\<close>.\<close>

definition payer_count :: "('i, 'd) TransactionSet \<Rightarrow> nat" where
  "payer_count self = length (filter (\<lambda>o1. type (organization o1) = ''payer'') (organizations self))"

text \<open>The date rule of the spec: the service's own date, else the claim's, else absent.\<close>

definition inherited_start :: "'d claim_loop \<Rightarrow> 'd service_loop \<Rightarrow> 'd val" where
  "inherited_start c s =
     (case service_period_start s of
        Some d \<Rightarrow> VDate (date d)
      | None \<Rightarrow> (case claim_statement_period_start c of Some d \<Rightarrow> VDate (date d) | None \<Rightarrow> VNone))"

definition inherited_end :: "'d claim_loop \<Rightarrow> 'd service_loop \<Rightarrow> 'd val" where
  "inherited_end c s =
     (case service_period_end s of
        Some d \<Rightarrow> VDate (date d)
      | None \<Rightarrow> (case claim_statement_period_end c of Some d \<Rightarrow> VDate (date d) | None \<Rightarrow> VNone))"

subsection \<open>Concrete transaction sets\<close>

text \<open>
  The scenario of the spec's section 8: one payer, one claim, one service paid 50 with one
  adjustment of 10 (group CO, reason 45); and variants without financial information and
  without a payer.
\<close>

definition ex_payer :: organization_loop where
  "ex_payer = \<lparr>organization = \<lparr>type = ''payer'', name = ''ACME HEALTH''\<rparr>\<rparr>"

definition ex_payee :: organization_loop where
  "ex_payee = \<lparr>organization = \<lparr>type = ''payee'', name = ''CLINIC''\<rparr>\<rparr>"

definition ex_service :: "string service_loop" where
  "ex_service =
     \<lparr>service = \<lparr>service_code = ''99213'', units = 1, charge_amount = 80, paid_amount = 50\<rparr>,
      service_period_start = None,
      service_period_end = Some \<lparr>date = ''2019-03-02''\<rparr>,
      remark = None,
      references = [],
      adjustments = [\<lparr>amount = 10, group_code = ''CO'', reason_code = ''45''\<rparr>]\<rparr>"

definition ex_claim :: "string claim_loop" where
  "ex_claim =
     \<lparr>claim = \<lparr>index = ''1''\<rparr>,
      patient = \<lparr>entity_segment.name = ''DOE''\<rparr>,
      claim_statement_period_start = Some \<lparr>date = ''2019-03-01''\<rparr>,
      claim_statement_period_end = None,
      rendering_provider = None,
      services = [ex_service]\<rparr>"

definition ex_ts :: "(unit, string) TransactionSet" where
  "ex_ts =
     \<lparr>interchange = None,
      financial_information = Some \<lparr>transaction_date = ''2019-03-15''\<rparr>,
      claims = [ex_claim],
      organizations = [ex_payer, ex_payee]\<rparr>"

definition ex_base :: "string row" where
  "ex_base =
     [''claim_index'' \<mapsto> VStr ''1'',
      ''patient'' \<mapsto> VStr ''DOE'',
      ''code'' \<mapsto> VStr ''99213'',
      ''units'' \<mapsto> VInt 1,
      ''transaction_date'' \<mapsto> VDate ''2019-03-15'',
      ''charge_amount'' \<mapsto> VInt 80,
      ''payer'' \<mapsto> VStr ''ACME HEALTH'',
      ''start_date'' \<mapsto> VDate ''2019-03-01'',
      ''end_date'' \<mapsto> VDate ''2019-03-02'',
      ''remark'' \<mapsto> VNone,
      ''reference'' \<mapsto> VNone,
      ''rendering_provider'' \<mapsto> VNone]"

definition ex_rows :: "string row list" where
  "ex_rows =
     [ex_base(''amount'' \<mapsto> VInt 50, ''type'' \<mapsto> VStr ''payment'',
              ''group'' \<mapsto> VNone, ''reason'' \<mapsto> VNone),
      ex_base(''amount'' \<mapsto> VInt 10, ''type'' \<mapsto> VStr ''adjustment'',
              ''group'' \<mapsto> VStr ''CO'', ''reason'' \<mapsto> VStr ''45'')]"

definition ex_ts_no_fi :: "(unit, string) TransactionSet" where
  "ex_ts_no_fi = ex_ts\<lparr>financial_information := None\<rparr>"

definition ex_ts_no_payer :: "(unit, string) TransactionSet" where
  "ex_ts_no_payer =
     \<lparr>interchange = None, financial_information = None,
      claims = [ex_claim\<lparr>services := []\<rparr>], organizations = [ex_payee]\<rparr>"

text \<open>
  A transaction set with two claims. The service of the second claim has no period dates
  of its own, and its claim has a statement period end and no start; it carries a remark,
  two references and one adjustment.
\<close>

definition ex_service2 :: "string service_loop" where
  "ex_service2 =
     \<lparr>service = \<lparr>service_code = ''97110'', units = 2, charge_amount = 60, paid_amount = 30\<rparr>,
      service_period_start = None,
      service_period_end = None,
      remark = Some \<lparr>qualifier = ''HE'', code = ''N130''\<rparr>,
      references = [\<lparr>str = ''6R: 7''\<rparr>, \<lparr>str = ''LU: 11''\<rparr>],
      adjustments = [\<lparr>amount = 5, group_code = ''PR'', reason_code = ''1''\<rparr>]\<rparr>"

definition ex_claim2 :: "string claim_loop" where
  "ex_claim2 =
     \<lparr>claim = \<lparr>index = ''2''\<rparr>,
      patient = \<lparr>entity_segment.name = ''ROE''\<rparr>,
      claim_statement_period_start = None,
      claim_statement_period_end = Some \<lparr>date = ''2019-04-30''\<rparr>,
      rendering_provider = Some \<lparr>entity_segment.name = ''DR WHO''\<rparr>,
      services = [ex_service2]\<rparr>"

definition ex_ts2 :: "(unit, string) TransactionSet" where
  "ex_ts2 =
     \<lparr>interchange = None,
      financial_information = Some \<lparr>transaction_date = ''2019-03-15''\<rparr>,
      claims = [ex_claim, ex_claim2],
      organizations = [ex_payer, ex_payee]\<rparr>"

definition ex_base2 :: "string row" where
  "ex_base2 =
     [''claim_index'' \<mapsto> VStr ''2'',
      ''patient'' \<mapsto> VStr ''ROE'',
      ''code'' \<mapsto> VStr ''97110'',
      ''units'' \<mapsto> VInt 2,
      ''transaction_date'' \<mapsto> VDate ''2019-03-15'',
      ''charge_amount'' \<mapsto> VInt 60,
      ''payer'' \<mapsto> VStr ''ACME HEALTH'',
      ''start_date'' \<mapsto> VNone,
      ''end_date'' \<mapsto> VDate ''2019-04-30'',
      ''remark'' \<mapsto> VStr ''HE: N130'',
      ''reference'' \<mapsto> VStr ''6R: 7, LU: 11'',
      ''rendering_provider'' \<mapsto> VStr ''DR WHO'']"

definition ex_rows2 :: "string row list" where
  "ex_rows2 =
     ex_rows @
     [ex_base2(''amount'' \<mapsto> VInt 30, ''type'' \<mapsto> VStr ''payment'',
               ''group'' \<mapsto> VNone, ''reason'' \<mapsto> VNone),
      ex_base2(''amount'' \<mapsto> VInt 5, ''type'' \<mapsto> VStr ''adjustment'',
               ''group'' \<mapsto> VStr ''PR'', ''reason'' \<mapsto> VStr ''1'')]"

section \<open>The builder\<close>

subsection \<open>Tokenizer\<close>

text \<open>
  \<^verbatim>\<open>file.split('~')\<close> and \<^verbatim>\<open>segment.strip()\<close>. The text is a list of characters,
  each a code point below 256. \<^verbatim>\<open>str.split(sep)\<close> cuts at every separator and keeps
  empty pieces, so a text with \<open>n\<close> separators has \<open>n + 1\<close> pieces. \<^verbatim>\<open>str.strip()\<close>
  removes leading and trailing characters for which \<^verbatim>\<open>str.isspace\<close> holds: below 256
  these are 0x09 to 0x0D, 0x1C to 0x20, 0x85 and 0xA0.
\<close>

function str_split :: "char \<Rightarrow> string \<Rightarrow> string list" where
  "str_split sep s =
     (case dropWhile (\<lambda>c. c \<noteq> sep) s of
        [] \<Rightarrow> [s]
      | _ # rest \<Rightarrow> takeWhile (\<lambda>c. c \<noteq> sep) s # str_split sep rest)"
  by pat_completeness auto
termination
proof (relation "measure (\<lambda>(sep, s). length s)")
  show "wf (measure (\<lambda>(sep, s). length s))" by simp
next
  fix sep :: char and s :: string and x rest
  assume "dropWhile (\<lambda>c. c \<noteq> sep) s = x # rest"
  then have "length (x # rest) \<le> length s"
    by (metis length_dropWhile_le)
  then show "((sep, rest), (sep, s)) \<in> measure (\<lambda>(sep, s). length s)"
    by simp
qed

declare str_split.simps [simp del]

definition isspace :: "char \<Rightarrow> bool" where
  "isspace c \<longleftrightarrow>
     c \<in> {CHR 0x09, CHR 0x0A, CHR 0x0B, CHR 0x0C, CHR 0x0D,
          CHR 0x1C, CHR 0x1D, CHR 0x1E, CHR 0x1F, CHR 0x20, CHR 0x85, CHR 0xA0}"

definition strip :: "string \<Rightarrow> string" where
  "strip s = rev (dropWhile isspace (rev (dropWhile isspace s)))"

text \<open>
  Lines 140 and 141 of the source: \<^verbatim>\<open>segments = file.split('~')\<close>, then
  \<^verbatim>\<open>segments = [segment.strip() for segment in segments]\<close>. Nothing is filtered out.
\<close>

definition tokenize :: "string \<Rightarrow> string list" where
  "tokenize file = map strip (str_split CHR ''~'' file)"

text \<open>
  The tokenizer as the spec words it (section 4.1): split on the record delimiter, trim,
  discard empty results.
\<close>

definition tokenize_spec :: "string \<Rightarrow> string list" where
  "tokenize_spec file = filter (\<lambda>t. t \<noteq> []) (map strip (str_split CHR ''~'' file))"

subsection \<open>Collaborators\<close>

text \<open>
  Modelled from the spec: \<^verbatim>\<open>find_identifier\<close>, the segment classes and the loop classes
  are imported by \<^verbatim>\<open>transaction_set.py\<close> and defined elsewhere. They are parameters of
  the builder, gathered in one record: the classifier (spec section 4.2, a pure function
  from a raw segment to its identifier), the two identification tags and the two
  initiating identifiers, the two segment constructors (section 6: a constructor from raw
  segment text to a typed record), and the two loop builders with the signature of section
  4.4, \<^verbatim>\<open>build(starting_segment, cursor) -> (value, advanced_cursor, leftover_or_none)\<close>.
  The cursor (a Python iterator) is the list of the tokens not yet pulled.
\<close>

record ('i, 'd) collaborators =
  find_identifier :: "string \<Rightarrow> string"
  InterchangeSegment_identification :: string
  FinancialInformationSegment_identification :: string
  OrganizationLoop_initiating_identifier :: string
  ClaimLoop_initiating_identifier :: string
  InterchangeSegment :: "string \<Rightarrow> 'i"
  FinancialInformationSegment :: "string \<Rightarrow> 'd financial_information_segment"
  OrganizationLoop_build ::
    "string \<Rightarrow> string list \<Rightarrow> organization_loop \<times> string list \<times> string option"
  ClaimLoop_build ::
    "string \<Rightarrow> string list \<Rightarrow> 'd claim_loop \<times> string list \<times> string option"

subsection \<open>\<^verbatim>\<open>build_attribute\<close>\<close>

text \<open>
  \<^verbatim>\<open>BuildAttributeResponse(key, value, segment, segments)\<close>. The key and the value
  travel together as one tagged value: \<open>Interchange v\<close> is the key
  \<^verbatim>\<open>'interchange'\<close> with value \<open>v\<close>, and so on; \<open>None\<close> is the key \<^verbatim>\<open>None\<close>.
  \<open>segments = None\<close> is the \<^verbatim>\<open>None\<close> returned when the cursor is exhausted.
\<close>

datatype ('i, 'd) attribute =
    Interchange 'i
  | FinancialInformation "'d financial_information_segment"
  | Organization organization_loop
  | Claim "'d claim_loop"

record ('i, 'd) BuildAttributeResponse =
  key_value :: "('i, 'd) attribute option"
  segment :: "string option"
  segments :: "string list option"

text \<open>
  Lines 171 to 175: with no pending segment, pull the next token from the cursor;
  \<^verbatim>\<open>StopIteration\<close> is the result \<open>None\<close>.
\<close>

definition next_segment :: "string option \<Rightarrow> string list \<Rightarrow> (string \<times> string list) option" where
  "next_segment segment' segments' =
     (case segment' of
        None \<Rightarrow> (case segments' of [] \<Rightarrow> None | s # rest \<Rightarrow> Some (s, rest))
      | Some s \<Rightarrow> Some (s, segments'))"

definition build_attribute ::
  "('i, 'd) collaborators \<Rightarrow> string option \<Rightarrow> string list \<Rightarrow> ('i, 'd) BuildAttributeResponse" where
  "build_attribute K segment' segments' =
     (case next_segment segment' segments' of
        None \<Rightarrow> \<lparr>key_value = None, segment = None, segments = None\<rparr>
      | Some (s, cursor) \<Rightarrow>
          (let identifier = find_identifier K s in
           if identifier = InterchangeSegment_identification K then
             \<lparr>key_value = Some (Interchange (InterchangeSegment K s)),
              segment = None, segments = Some cursor\<rparr>
           else if identifier = FinancialInformationSegment_identification K then
             \<lparr>key_value = Some (FinancialInformation (FinancialInformationSegment K s)),
              segment = None, segments = Some cursor\<rparr>
           else if identifier = OrganizationLoop_initiating_identifier K then
             (case OrganizationLoop_build K s cursor of
                (organization', cursor', leftover) \<Rightarrow>
                  \<lparr>key_value = Some (Organization organization'),
                   segment = leftover, segments = Some cursor'\<rparr>)
           else if identifier = ClaimLoop_initiating_identifier K then
             (case ClaimLoop_build K s cursor of
                (claim', cursor', leftover) \<Rightarrow>
                  \<lparr>key_value = Some (Claim claim'),
                   segment = leftover, segments = Some cursor'\<rparr>)
           else \<lparr>key_value = None, segment = None, segments = Some cursor\<rparr>))"

subsection \<open>\<^verbatim>\<open>build\<close>\<close>

text \<open>
  The state of the \<^verbatim>\<open>while True\<close> loop: the pending segment, the cursor, and the four
  local variables \<^verbatim>\<open>interchange\<close>, \<^verbatim>\<open>financial_information\<close>, \<^verbatim>\<open>claims\<close>,
  \<^verbatim>\<open>organizations\<close>, held in the transaction set that the function returns from them.
  \<open>build_step\<close> is one pass of the loop body; \<open>None\<close> is the \<^verbatim>\<open>break\<close>.
\<close>

type_synonym ('i, 'd) build_state = "string option \<times> string list \<times> ('i, 'd) TransactionSet"

definition store :: "('i, 'd) attribute option \<Rightarrow> ('i, 'd) TransactionSet \<Rightarrow> ('i, 'd) TransactionSet" where
  "store kv ts =
     (case kv of
        None \<Rightarrow> ts
      | Some (Interchange v) \<Rightarrow> ts\<lparr>interchange := Some v\<rparr>
      | Some (FinancialInformation v) \<Rightarrow> ts\<lparr>financial_information := Some v\<rparr>
      | Some (Organization v) \<Rightarrow> ts\<lparr>organizations := organizations ts @ [v]\<rparr>
      | Some (Claim v) \<Rightarrow> ts\<lparr>claims := claims ts @ [v]\<rparr>)"

definition build_step ::
  "('i, 'd) collaborators \<Rightarrow> ('i, 'd) build_state \<Rightarrow> ('i, 'd) build_state option" where
  "build_step K st =
     (case st of (segment', segments', ts) \<Rightarrow>
        (let response = build_attribute K segment' segments' in
         case segments response of
           None \<Rightarrow> None
         | Some cursor \<Rightarrow> Some (segment response, cursor, store (key_value response) ts)))"

partial_function (option) build_loop ::
  "('i, 'd) collaborators \<Rightarrow> ('i, 'd) build_state \<Rightarrow> ('i, 'd) TransactionSet option" where
  "build_loop K st =
     (case build_step K st of
        None \<Rightarrow> Some (snd (snd st))
      | Some st' \<Rightarrow> build_loop K st')"

text \<open>
  \<^verbatim>\<open>build\<close>, from the text of the file (reading the file is outside the model): the
  result is \<open>None\<close> when the loop does not return.
\<close>

definition build :: "('i, 'd) collaborators \<Rightarrow> string \<Rightarrow> ('i, 'd) TransactionSet option" where
  "build K file =
     build_loop K
       (None, tokenize file,
        \<lparr>interchange = None, financial_information = None, claims = [], organizations = []\<rparr>)"

subsection \<open>Notions used to state the builder's properties\<close>

text \<open>The tokens not yet consumed: the pending segment, if any, then the cursor.\<close>

definition remaining :: "('i, 'd) build_state \<Rightarrow> string list" where
  "remaining st =
     (case st of (segment', segments', ts) \<Rightarrow>
        (case segment' of None \<Rightarrow> [] | Some s \<Rightarrow> [s]) @ segments')"

text \<open>
  The contract of a loop builder (spec section 4.4), as far as the cursor goes: the builder
  pulls tokens from the front of the cursor, and the leftover, when there is one, is the
  last token it pulled; with no leftover it has emptied the cursor. \<open>swallowed\<close> are the
  tokens it kept for its loop. A loop owns no Interchange or FinancialInformation segment,
  so none is among them.
\<close>

definition is_interchange :: "('i, 'd) collaborators \<Rightarrow> string \<Rightarrow> bool" where
  "is_interchange K s \<longleftrightarrow> find_identifier K s = InterchangeSegment_identification K"

definition is_financial_information :: "('i, 'd) collaborators \<Rightarrow> string \<Rightarrow> bool" where
  "is_financial_information K s \<longleftrightarrow>
     find_identifier K s = FinancialInformationSegment_identification K"

definition loop_contract ::
  "('i, 'd) collaborators \<Rightarrow> (string \<Rightarrow> string list \<Rightarrow> 'v \<times> string list \<times> string option) \<Rightarrow> bool" where
  "loop_contract K b \<longleftrightarrow>
     (\<forall>s cursor v cursor' leftover.
        b s cursor = (v, cursor', leftover) \<longrightarrow>
          (\<exists>swallowed.
             cursor = swallowed @ (case leftover of None \<Rightarrow> [] | Some l \<Rightarrow> [l]) @ cursor' \<and>
             (leftover = None \<longrightarrow> cursor' = []) \<and>
             list_all (\<lambda>t. \<not> is_interchange K t \<and> \<not> is_financial_information K t) swallowed))"


subsection \<open>Concrete collaborators\<close>

text \<open>
  Collaborators to run the builder on: identifiers end at the first \<^verbatim>\<open>*\<close>; the tags are
  those of the remittance format (\<^verbatim>\<open>ISA\<close>, \<^verbatim>\<open>BPR\<close>, \<^verbatim>\<open>N1\<close>, \<^verbatim>\<open>CLP\<close>); a loop
  builder keeps the tokens whose identifier its loop owns and stops at the first other
  token, which is its leftover, as section 4.4 of the spec describes.
\<close>

definition ex_find_identifier :: "string \<Rightarrow> string" where
  "ex_find_identifier s = takeWhile (\<lambda>c. c \<noteq> CHR ''*'') s"

fun scan_loop :: "(string \<Rightarrow> bool) \<Rightarrow> string list \<Rightarrow> string list \<times> string list \<times> string option" where
  "scan_loop owns [] = ([], [], None)"
| "scan_loop owns (t # rest) =
     (if owns t
      then (case scan_loop owns rest of (kept, cursor', leftover) \<Rightarrow> (t # kept, cursor', leftover))
      else ([], rest, Some t))"

definition ex_OrganizationLoop_build ::
  "string \<Rightarrow> string list \<Rightarrow> organization_loop \<times> string list \<times> string option" where
  "ex_OrganizationLoop_build s cursor =
     (case scan_loop (\<lambda>t. ex_find_identifier t = ''N3'' \<or> ex_find_identifier t = ''N4'') cursor of
        (kept, cursor', leftover) \<Rightarrow>
          (\<lparr>organization =
              \<lparr>type = (if take 5 s = ''N1*PR'' then ''payer'' else ''payee''),
               name = drop 6 s\<rparr>\<rparr>,
           cursor', leftover))"

definition ex_ClaimLoop_build ::
  "string \<Rightarrow> string list \<Rightarrow> string claim_loop \<times> string list \<times> string option" where
  "ex_ClaimLoop_build s cursor =
     (case scan_loop (\<lambda>t. ex_find_identifier t = ''NM1'' \<or> ex_find_identifier t = ''SVC'') cursor of
        (kept, cursor', leftover) \<Rightarrow>
          (\<lparr>claim = \<lparr>index = drop 4 s\<rparr>,
            patient = \<lparr>entity_segment.name = []\<rparr>,
            claim_statement_period_start = None,
            claim_statement_period_end = None,
            rendering_provider = None,
            services = []\<rparr>,
           cursor', leftover))"

definition ex_K :: "(string, string) collaborators" where
  "ex_K =
     \<lparr>find_identifier = ex_find_identifier,
      InterchangeSegment_identification = ''ISA'',
      FinancialInformationSegment_identification = ''BPR'',
      OrganizationLoop_initiating_identifier = ''N1'',
      ClaimLoop_initiating_identifier = ''CLP'',
      InterchangeSegment = (\<lambda>s. s),
      FinancialInformationSegment = (\<lambda>s. \<lparr>transaction_date = drop 4 s\<rparr>),
      OrganizationLoop_build = ex_OrganizationLoop_build,
      ClaimLoop_build = ex_ClaimLoop_build\<rparr>"

text \<open>
  A document with two Interchange segments, the second met as the leftover of the
  organization loop, an unknown segment met as the leftover of the claim loop, and two
  empty tokens at the end.
\<close>

definition ex_doc :: string where
  "ex_doc = ''ISA*a~BPR*20190315~N1*PR*ACME~N3*street~ISA*b~CLP*1~SVC*99213~ZZ*x~ ~''"

definition ex_tokens :: "string list" where
  "ex_tokens =
     [''ISA*a'', ''BPR*20190315'', ''N1*PR*ACME'', ''N3*street'', ''ISA*b'', ''CLP*1'',
      ''SVC*99213'', ''ZZ*x'', [], []]"

definition ex_built :: "(string, string) TransactionSet" where
  "ex_built =
     \<lparr>interchange = Some ''ISA*b'',
      financial_information = Some \<lparr>transaction_date = ''20190315''\<rparr>,
      claims =
        [\<lparr>claim = \<lparr>index = ''1''\<rparr>,
          patient = \<lparr>entity_segment.name = []\<rparr>,
          claim_statement_period_start = None,
          claim_statement_period_end = None,
          rendering_provider = None,
          services = []\<rparr>],
      organizations = [\<lparr>organization = \<lparr>type = ''payer'', name = ''ACME''\<rparr>\<rparr>]\<rparr>"

section \<open>Properties\<close>

subsection \<open>Payer lookup\<close>

text \<open>
  Claim C1. The payer lookup fails with the data-integrity error (the failed assertion)
  when the organizations hold no organization of type \<^verbatim>\<open>payer\<close> or more than one,
  and when they hold exactly one it succeeds and returns that organization. The check is
  part of the lookup: a \<open>TransactionSet\<close> record holds any list of organizations, and
  the builder never calls \<open>payer\<close> (lemma \<open>build_without_payer\<close> at the end).
\<close>

theorem payer_unique_or_error:
  "(payer_count self = 0 \<or> 1 < payer_count self \<longrightarrow> payer self = Inl AssertionError) \<and>
   (payer_count self = 1 \<longrightarrow>
      (\<exists>p \<in> set (organizations self). type (organization p) = ''payer'' \<and> payer self = Inr p))"
proof (intro conjI impI)
  assume "payer_count self = 0 \<or> 1 < payer_count self"
  then show "payer self = Inl AssertionError"
    by (auto simp: payer_count_def payer_def Let_def)
next
  let ?ps = "filter (\<lambda>o1. type (organization o1) = ''payer'') (organizations self)"
  assume "payer_count self = 1"
  then have len: "length ?ps = 1" by (simp add: payer_count_def)
  then obtain p where p: "?ps = [p]"
    by (cases ?ps) simp_all
  have "p \<in> set ?ps" unfolding p by simp
  then have "p \<in> set (organizations self)" "type (organization p) = ''payer''" by simp_all
  moreover have "payer self = Inr p"
    by (simp add: payer_def p)
  ultimately show "\<exists>p \<in> set (organizations self). type (organization p) = ''payer'' \<and> payer self = Inr p"
    by blast
qed

theorem payer_unique_or_error_witness:
  "payer_count ex_ts = 1 \<and> payer ex_ts = Inr ex_payer \<and>
   payer_count ex_ts_no_payer = 0 \<and> payer ex_ts_no_payer = Inl AssertionError"
proof -
  have a: "payer_count ex_ts = 1"
    by (simp add: payer_count_def ex_ts_def ex_payer_def ex_payee_def)
  have b: "payer_count ex_ts_no_payer = 0"
    by (simp add: payer_count_def ex_ts_no_payer_def ex_payee_def)
  from payer_unique_or_error [of ex_ts] a obtain p where
    p: "p \<in> set (organizations ex_ts)" "type (organization p) = ''payer''" "payer ex_ts = Inr p"
    by blast
  from p(1,2) have "p = ex_payer"
    by (auto simp: ex_ts_def ex_payee_def)
  with p(3) have "payer ex_ts = Inr ex_payer" by simp
  moreover from payer_unique_or_error [of ex_ts_no_payer] b have "payer ex_ts_no_payer = Inl AssertionError"
    by blast
  ultimately show ?thesis using a b by simp
qed

subsection \<open>The structure of the flattened rows\<close>

lemma adjustments_loop_eq:
  "adjustments_loop sv as data =
     data @ map (\<lambda>a. add_line_item sv (amount a) ''adjustment'' (Some (group_code a)) (Some (reason_code a))) as"
  by (induction as arbitrary: data) simp_all

lemma services_loop_blocks:
  "services_loop self c ss data = Inr rows \<Longrightarrow>
   \<exists>blocks. rows = data @ concat blocks \<and> list_all2 (\<lambda>s. emitted self (c, s)) ss blocks"
proof (induction ss arbitrary: data)
  case Nil
  then show ?case by simp
next
  case (Cons s ss)
  from Cons.prems obtain p where p: "payer self = Inr p"
    by (auto split: sum.splits)
  from Cons.prems p obtain base where
    base: "serialize_service (financial_information self) p c s = Inr base"
    by (auto split: sum.splits)
  from Cons.prems p base have
    "services_loop self c ss (data @ service_rows base s) = Inr rows"
    by (simp add: adjustments_loop_eq service_rows_def)
  from Cons.IH [OF this] obtain blocks where
    b: "rows = (data @ service_rows base s) @ concat blocks"
       "list_all2 (\<lambda>s. emitted self (c, s)) ss blocks"
    by blast
  have "emitted self (c, s) (service_rows base s)"
    using p base by (auto simp: emitted_def)
  with b have "rows = data @ concat (service_rows base s # blocks) \<and>
     list_all2 (\<lambda>s. emitted self (c, s)) (s # ss) (service_rows base s # blocks)"
    by simp
  then show ?case by blast
qed

lemma claims_loop_blocks:
  "claims_loop self cs data = Inr rows \<Longrightarrow>
   \<exists>blocks. rows = data @ concat blocks \<and>
     list_all2 (emitted self) (concat (map (\<lambda>c. map (Pair c) (services c)) cs)) blocks"
proof (induction cs arbitrary: data)
  case Nil
  then show ?case by simp
next
  case (Cons c cs)
  from Cons.prems obtain data' where
    d: "services_loop self c (services c) data = Inr data'"
       "claims_loop self cs data' = Inr rows"
    by (auto split: sum.splits)
  from services_loop_blocks [OF d(1)] obtain b1 where
    b1: "data' = data @ concat b1" "list_all2 (\<lambda>s. emitted self (c, s)) (services c) b1"
    by blast
  from Cons.IH [OF d(2)] obtain b2 where
    b2: "rows = data' @ concat b2"
        "list_all2 (emitted self) (concat (map (\<lambda>c. map (Pair c) (services c)) cs)) b2"
    by blast
  from b1(2) have "list_all2 (emitted self) (map (Pair c) (services c)) b1"
    by (simp add: list_all2_map1)
  with b2(2) have "list_all2 (emitted self)
      (concat (map (\<lambda>c. map (Pair c) (services c)) (c # cs))) (b1 @ b2)"
    by (simp add: list_all2_appendI)
  moreover have "rows = data @ concat (b1 @ b2)"
    using b1(1) b2(1) by simp
  ultimately show ?case by blast
qed

lemma to_dataframe_blocks:
  "to_dataframe self = Inr rows \<Longrightarrow>
   \<exists>blocks. rows = concat blocks \<and> list_all2 (emitted self) (service_pairs self) blocks"
  unfolding to_dataframe_def service_pairs_def
  by (drule claims_loop_blocks) simp

lemma payer_ex_ts: "payer ex_ts = Inr ex_payer"
  by (simp add: payer_def ex_ts_def ex_payer_def ex_payee_def)

lemma to_dataframe_ex_ts: "to_dataframe ex_ts = Inr ex_rows"
  by (simp add: to_dataframe_def ex_ts_def ex_claim_def ex_service_def payer_def ex_payer_def
      ex_payee_def serialize_service_def add_line_item_def opt_str_def ex_rows_def ex_base_def)

subsection \<open>When flattening succeeds\<close>

text \<open>
  Flattening visits the services in order and fails at the first one when the payer lookup
  fails or the financial information is absent; nothing else fails. So it returns rows
  exactly when there is no service at all, or the payer is unique and the financial
  information is present.
\<close>

lemma payer_error: "payer self = Inl e \<Longrightarrow> e = AssertionError"
  by (auto simp: payer_def Let_def split: if_splits)

lemma serialize_service_None: "serialize_service None p c s = Inl AttributeError"
  by (simp add: serialize_service_def)

lemma services_loop_no_fi:
  "services_loop self c ss data =
     (if \<exists>p. payer self = Inr p then Inl AttributeError else Inl AssertionError)"
  if "financial_information self = None" "ss \<noteq> []"
proof (cases ss)
  case Nil
  then show ?thesis using that by simp
next
  case (Cons s ss')
  show ?thesis
  proof (cases "payer self")
    case (Inl e)
    then have "e = AssertionError" by (rule payer_error)
    with Inl Cons show ?thesis by simp
  next
    case (Inr p)
    with Cons that show ?thesis by (simp add: serialize_service_None)
  qed
qed

lemma claims_loop_no_services:
  "\<forall>c \<in> set cs. services c = [] \<Longrightarrow> claims_loop self cs data = Inr data"
  by (induction cs arbitrary: data) simp_all

lemma claims_loop_no_fi:
  "financial_information self = None \<Longrightarrow> \<exists>c \<in> set cs. services c \<noteq> [] \<Longrightarrow>
   claims_loop self cs data =
     (if \<exists>p. payer self = Inr p then Inl AttributeError else Inl AssertionError)"
proof (induction cs arbitrary: data)
  case Nil
  then show ?case by simp
next
  case (Cons c cs)
  show ?case
  proof (cases "services c = []")
    case True
    with Cons show ?thesis by simp
  next
    case False
    with Cons.prems(1) show ?thesis
      by (simp add: services_loop_no_fi)
  qed
qed

lemma serialize_service_Some: "\<exists>base. serialize_service (Some fi) p c s = Inr base"
  by (simp add: serialize_service_def Let_def)

lemma services_loop_succeeds:
  assumes "payer self = Inr p" "financial_information self = Some fi"
  shows "\<exists>rows. services_loop self c ss data = Inr rows"
proof (induction ss arbitrary: data)
  case Nil
  show ?case by simp
next
  case (Cons s ss)
  obtain base where "serialize_service (Some fi) p c s = Inr base"
    using serialize_service_Some by blast
  with assms Cons show ?case by simp
qed

lemma claims_loop_succeeds:
  assumes "payer self = Inr p" "financial_information self = Some fi"
  shows "\<exists>rows. claims_loop self cs data = Inr rows"
proof (induction cs arbitrary: data)
  case Nil
  show ?case by simp
next
  case (Cons c cs)
  obtain data' where "services_loop self c (services c) data = Inr data'"
    using services_loop_succeeds [OF assms] by blast
  with Cons show ?case by simp
qed

lemma services_loop_no_payer:
  "payer self = Inl e \<Longrightarrow> ss \<noteq> [] \<Longrightarrow> services_loop self c ss data = Inl e"
  by (cases ss) simp_all

lemma claims_loop_no_payer:
  "payer self = Inl e \<Longrightarrow> \<exists>c \<in> set cs. services c \<noteq> [] \<Longrightarrow>
   claims_loop self cs data = Inl e"
proof (induction cs arbitrary: data)
  case Nil
  then show ?case by simp
next
  case (Cons c cs)
  show ?case
  proof (cases "services c = []")
    case True
    with Cons show ?thesis by simp
  next
    case False
    with Cons.prems(1) show ?thesis
      by (simp add: services_loop_no_payer)
  qed
qed

lemma to_dataframe_succeeds_iff:
  "(\<exists>rows. to_dataframe self = Inr rows) \<longleftrightarrow>
     concat (map services (claims self)) = [] \<or>
     ((\<exists>p. payer self = Inr p) \<and> financial_information self \<noteq> None)"
proof (cases "\<forall>c \<in> set (claims self). services c = []")
  case True
  then have "to_dataframe self = Inr []"
    by (simp add: to_dataframe_def claims_loop_no_services)
  moreover from True have "concat (map services (claims self)) = []" by simp
  ultimately show ?thesis by simp
next
  case False
  then have ex: "\<exists>c \<in> set (claims self). services c \<noteq> []" by blast
  then have ne: "concat (map services (claims self)) \<noteq> []" by simp
  show ?thesis
  proof (cases "payer self")
    case (Inl e)
    from claims_loop_no_payer [OF Inl ex] have "to_dataframe self = Inl e"
      by (simp add: to_dataframe_def)
    with Inl ne show ?thesis by simp
  next
    case (Inr p)
    show ?thesis
    proof (cases "financial_information self")
      case None
      from claims_loop_no_fi [OF None ex] have "\<exists>e. to_dataframe self = Inl e"
        by (simp add: to_dataframe_def)
      with None ne show ?thesis by auto
    next
      case (Some fi)
      from claims_loop_succeeds [OF Inr Some] have "\<exists>rows. to_dataframe self = Inr rows"
        by (simp add: to_dataframe_def)
      with Inr Some show ?thesis by simp
    qed
  qed
qed

lemma to_dataframe_ex_ts2: "to_dataframe ex_ts2 = Inr ex_rows2"
  by (simp add: to_dataframe_def ex_ts2_def ex_claim_def ex_claim2_def ex_service_def
      ex_service2_def payer_def ex_payer_def ex_payee_def serialize_service_def add_line_item_def
      opt_str_def ex_rows2_def ex_rows_def ex_base_def ex_base2_def)

lemma ex_rows2_dates:
  "map (\<lambda>r. (r ''start_date'', r ''end_date'')) ex_rows2 =
     [(Some (VDate ''2019-03-01''), Some (VDate ''2019-03-02'')),
      (Some (VDate ''2019-03-01''), Some (VDate ''2019-03-02'')),
      (Some VNone, Some (VDate ''2019-04-30'')),
      (Some VNone, Some (VDate ''2019-04-30''))]"
  by (simp add: ex_rows2_def ex_rows_def ex_base_def ex_base2_def)

subsection \<open>The rows of a service\<close>

text \<open>
  Claim C3. For every transaction set, flattening returns rows exactly when there is no
  service or the payer is unique and the financial information is present (otherwise it
  raises and there are no rows). The rows it returns are the concatenation of one block
  per service, the blocks in claim order and then service order. The block of a service is
  its payment row (amount the paid amount, type \<^verbatim>\<open>payment\<close>, group and reason
  \<^verbatim>\<open>None\<close>) followed by one row per adjustment in order (amount, type
  \<^verbatim>\<open>adjustment\<close>, group code, reason code), each extending the service's base
  record.
\<close>

theorem to_dataframe_rows:
  "((\<exists>rows. to_dataframe self = Inr rows) \<longleftrightarrow>
     concat (map services (claims self)) = [] \<or>
     ((\<exists>p. payer self = Inr p) \<and> financial_information self \<noteq> None)) \<and>
   (\<forall>rows. to_dataframe self = Inr rows \<longrightarrow>
      (\<exists>blocks. rows = concat blocks \<and>
     list_all2
       (\<lambda>(c, s) block. \<exists>p base.
          payer self = Inr p \<and>
          serialize_service (financial_information self) p c s = Inr base \<and>
          block =
            base(''amount'' \<mapsto> VInt (paid_amount (service s)), ''type'' \<mapsto> VStr ''payment'',
                 ''group'' \<mapsto> VNone, ''reason'' \<mapsto> VNone) #
            map (\<lambda>a. base(''amount'' \<mapsto> VInt (amount a), ''type'' \<mapsto> VStr ''adjustment'',
                          ''group'' \<mapsto> VStr (group_code a), ''reason'' \<mapsto> VStr (reason_code a)))
              (adjustments s))
       (concat (map (\<lambda>c. map (Pair c) (services c)) (claims self))) blocks))"
proof (intro conjI allI impI)
  show "(\<exists>rows. to_dataframe self = Inr rows) \<longleftrightarrow>
     concat (map services (claims self)) = [] \<or>
     ((\<exists>p. payer self = Inr p) \<and> financial_information self \<noteq> None)"
    by (rule to_dataframe_succeeds_iff)
next
  fix rows
  assume assms: "to_dataframe self = Inr rows"
  show "\<exists>blocks. rows = concat blocks \<and>
     list_all2
       (\<lambda>(c, s) block. \<exists>p base.
          payer self = Inr p \<and>
          serialize_service (financial_information self) p c s = Inr base \<and>
          block =
            base(''amount'' \<mapsto> VInt (paid_amount (service s)), ''type'' \<mapsto> VStr ''payment'',
                 ''group'' \<mapsto> VNone, ''reason'' \<mapsto> VNone) #
            map (\<lambda>a. base(''amount'' \<mapsto> VInt (amount a), ''type'' \<mapsto> VStr ''adjustment'',
                          ''group'' \<mapsto> VStr (group_code a), ''reason'' \<mapsto> VStr (reason_code a)))
              (adjustments s))
       (concat (map (\<lambda>c. map (Pair c) (services c)) (claims self))) blocks"
  proof -
    from to_dataframe_blocks [OF assms] obtain blocks where
      b: "rows = concat blocks" "list_all2 (emitted self) (service_pairs self) blocks"
      by blast
    have "emitted self = (\<lambda>(c, s) block. \<exists>p base.
            payer self = Inr p \<and>
            serialize_service (financial_information self) p c s = Inr base \<and>
            block =
              base(''amount'' \<mapsto> VInt (paid_amount (service s)), ''type'' \<mapsto> VStr ''payment'',
                   ''group'' \<mapsto> VNone, ''reason'' \<mapsto> VNone) #
              map (\<lambda>a. base(''amount'' \<mapsto> VInt (amount a), ''type'' \<mapsto> VStr ''adjustment'',
                            ''group'' \<mapsto> VStr (group_code a), ''reason'' \<mapsto> VStr (reason_code a)))
                (adjustments s))"
      by (intro ext) (simp add: emitted_def service_rows_def add_line_item_def opt_str_def split_def)
    with b show ?thesis
      unfolding service_pairs_def by auto
  qed
qed

theorem to_dataframe_rows_witness:
  "(\<exists>rows. to_dataframe ex_ts2 = Inr rows) \<and>
   to_dataframe ex_ts2 = Inr ex_rows2 \<and>
   (\<exists>blocks. ex_rows2 = concat blocks \<and>
     list_all2
       (\<lambda>(c, s) block. \<exists>p base.
          payer ex_ts2 = Inr p \<and>
          serialize_service (financial_information ex_ts2) p c s = Inr base \<and>
          block =
            base(''amount'' \<mapsto> VInt (paid_amount (service s)), ''type'' \<mapsto> VStr ''payment'',
                 ''group'' \<mapsto> VNone, ''reason'' \<mapsto> VNone) #
            map (\<lambda>a. base(''amount'' \<mapsto> VInt (amount a), ''type'' \<mapsto> VStr ''adjustment'',
                          ''group'' \<mapsto> VStr (group_code a), ''reason'' \<mapsto> VStr (reason_code a)))
              (adjustments s))
       (concat (map (\<lambda>c. map (Pair c) (services c)) (claims ex_ts2))) blocks)"
proof -
  have "payer ex_ts2 = Inr ex_payer" "financial_information ex_ts2 \<noteq> None"
    by (simp_all add: payer_def ex_ts2_def ex_payer_def ex_payee_def)
  then have "concat (map services (claims ex_ts2)) = [] \<or>
     ((\<exists>p. payer ex_ts2 = Inr p) \<and> financial_information ex_ts2 \<noteq> None)"
    by blast
  with to_dataframe_rows [of ex_ts2, THEN conjunct1]
  have 1: "\<exists>rows. to_dataframe ex_ts2 = Inr rows" by (rule iffD2)
  note 2 = to_dataframe_rows [of ex_ts2, THEN conjunct2, rule_format, OF to_dataframe_ex_ts2]
  from 1 to_dataframe_ex_ts2 2 show ?thesis by (intro conjI)
qed

subsection \<open>Dates\<close>

lemma serialize_service_dates:
  "serialize_service fi p c s = Inr base \<Longrightarrow>
   base ''start_date'' = Some (inherited_start c s) \<and> base ''end_date'' = Some (inherited_end c s)"
  by (cases fi) (auto simp: serialize_service_def inherited_start_def inherited_end_def)

lemma service_rows_dates:
  "r \<in> set (service_rows base s) \<Longrightarrow>
   r ''start_date'' = base ''start_date'' \<and> r ''end_date'' = base ''end_date''"
  by (auto simp: service_rows_def add_line_item_def)

lemma emitted_dates:
  assumes "emitted self cs block" "r \<in> set block"
  shows "r ''start_date'' = Some (inherited_start (fst cs) (snd cs)) \<and>
         r ''end_date'' = Some (inherited_end (fst cs) (snd cs))"
proof -
  from assms(1) obtain p base where
    base: "serialize_service (financial_information self) p (fst cs) (snd cs) = Inr base"
    and block: "block = service_rows base (snd cs)"
    unfolding emitted_def by blast
  from assms(2) block have "r \<in> set (service_rows base (snd cs))" by simp
  from service_rows_dates [OF this] serialize_service_dates [OF base]
  show ?thesis by simp
qed

lemma emitted_nonempty: "emitted self cs block \<Longrightarrow> block \<noteq> []"
  by (auto simp: emitted_def service_rows_def)

text \<open>
  Claim C2. Flattening returns rows exactly when there is no service or the payer is unique
  and the financial information is present. In every row it returns for a service of a
  claim, \<^verbatim>\<open>start_date\<close> is the service's own period start date when it has one,
  else the claim's statement period start date when it has one, else \<^verbatim>\<open>None\<close>;
  and \<^verbatim>\<open>end_date\<close> follows the same rule on the end dates, independently. Each
  service has at least one row.
\<close>

theorem row_dates_inherited:
  "((\<exists>rows. to_dataframe self = Inr rows) \<longleftrightarrow>
     concat (map services (claims self)) = [] \<or>
     ((\<exists>p. payer self = Inr p) \<and> financial_information self \<noteq> None)) \<and>
   (\<forall>rows. to_dataframe self = Inr rows \<longrightarrow>
      (\<exists>blocks. rows = concat blocks \<and>
     list_all2
       (\<lambda>cs block. block \<noteq> [] \<and>
          (\<forall>r \<in> set block.
             r ''start_date'' =
               Some (case service_period_start (snd cs) of
                       Some d \<Rightarrow> VDate (date d)
                     | None \<Rightarrow>
                         (case claim_statement_period_start (fst cs) of
                            Some d \<Rightarrow> VDate (date d)
                          | None \<Rightarrow> VNone)) \<and>
             r ''end_date'' =
               Some (case service_period_end (snd cs) of
                       Some d \<Rightarrow> VDate (date d)
                     | None \<Rightarrow>
                         (case claim_statement_period_end (fst cs) of
                            Some d \<Rightarrow> VDate (date d)
                          | None \<Rightarrow> VNone))))
       (concat (map (\<lambda>c. map (Pair c) (services c)) (claims self))) blocks))"
proof (intro conjI allI impI)
  show "(\<exists>rows. to_dataframe self = Inr rows) \<longleftrightarrow>
     concat (map services (claims self)) = [] \<or>
     ((\<exists>p. payer self = Inr p) \<and> financial_information self \<noteq> None)"
    by (rule to_dataframe_succeeds_iff)
next
  fix rows
  assume assms: "to_dataframe self = Inr rows"
  show "\<exists>blocks. rows = concat blocks \<and>
     list_all2
       (\<lambda>cs block. block \<noteq> [] \<and>
          (\<forall>r \<in> set block.
             r ''start_date'' =
               Some (case service_period_start (snd cs) of
                       Some d \<Rightarrow> VDate (date d)
                     | None \<Rightarrow>
                         (case claim_statement_period_start (fst cs) of
                            Some d \<Rightarrow> VDate (date d)
                          | None \<Rightarrow> VNone)) \<and>
             r ''end_date'' =
               Some (case service_period_end (snd cs) of
                       Some d \<Rightarrow> VDate (date d)
                     | None \<Rightarrow>
                         (case claim_statement_period_end (fst cs) of
                            Some d \<Rightarrow> VDate (date d)
                          | None \<Rightarrow> VNone))))
       (concat (map (\<lambda>c. map (Pair c) (services c)) (claims self))) blocks"
  proof -
    from to_dataframe_blocks [OF assms] obtain blocks where
      b: "rows = concat blocks" "list_all2 (emitted self) (service_pairs self) blocks"
      by blast
    have "list_all2
         (\<lambda>cs block. block \<noteq> [] \<and>
            (\<forall>r \<in> set block.
               r ''start_date'' = Some (inherited_start (fst cs) (snd cs)) \<and>
               r ''end_date'' = Some (inherited_end (fst cs) (snd cs))))
         (service_pairs self) blocks"
      using b(2)
    proof (rule list_all2_mono)
      fix cs block
      assume "emitted self cs block"
      then show "block \<noteq> [] \<and>
            (\<forall>r \<in> set block.
               r ''start_date'' = Some (inherited_start (fst cs) (snd cs)) \<and>
               r ''end_date'' = Some (inherited_end (fst cs) (snd cs)))"
        using emitted_dates emitted_nonempty by blast
    qed
    then show ?thesis
      unfolding service_pairs_def inherited_start_def inherited_end_def
      using b(1) by (intro exI [of _ blocks] conjI)
  qed
qed

theorem row_dates_inherited_witness:
  "(\<exists>rows. to_dataframe ex_ts2 = Inr rows) \<and>
   to_dataframe ex_ts2 = Inr ex_rows2 \<and>
   map (\<lambda>r. (r ''start_date'', r ''end_date'')) ex_rows2 =
     [(Some (VDate ''2019-03-01''), Some (VDate ''2019-03-02'')),
      (Some (VDate ''2019-03-01''), Some (VDate ''2019-03-02'')),
      (Some VNone, Some (VDate ''2019-04-30'')),
      (Some VNone, Some (VDate ''2019-04-30''))] \<and>
   (\<exists>blocks. ex_rows2 = concat blocks \<and>
     list_all2
       (\<lambda>cs block. block \<noteq> [] \<and>
          (\<forall>r \<in> set block.
             r ''start_date'' =
               Some (case service_period_start (snd cs) of
                       Some d \<Rightarrow> VDate (date d)
                     | None \<Rightarrow>
                         (case claim_statement_period_start (fst cs) of
                            Some d \<Rightarrow> VDate (date d)
                          | None \<Rightarrow> VNone)) \<and>
             r ''end_date'' =
               Some (case service_period_end (snd cs) of
                       Some d \<Rightarrow> VDate (date d)
                     | None \<Rightarrow>
                         (case claim_statement_period_end (fst cs) of
                            Some d \<Rightarrow> VDate (date d)
                          | None \<Rightarrow> VNone))))
       (concat (map (\<lambda>c. map (Pair c) (services c)) (claims ex_ts2))) blocks)"
proof -
  have "payer ex_ts2 = Inr ex_payer" "financial_information ex_ts2 \<noteq> None"
    by (simp_all add: payer_def ex_ts2_def ex_payer_def ex_payee_def)
  then have "concat (map services (claims ex_ts2)) = [] \<or>
     ((\<exists>p. payer ex_ts2 = Inr p) \<and> financial_information ex_ts2 \<noteq> None)"
    by blast
  with row_dates_inherited [of ex_ts2, THEN conjunct1]
  have 1: "\<exists>rows. to_dataframe ex_ts2 = Inr rows" by (rule iffD2)
  note 2 = row_dates_inherited [of ex_ts2, THEN conjunct2, rule_format, OF to_dataframe_ex_ts2]
  from 1 to_dataframe_ex_ts2 ex_rows2_dates 2 show ?thesis by (intro conjI)
qed

subsection \<open>The sum of the payments\<close>

lemma payment_rows_of_block:
  "map row_amount (filter (\<lambda>r. r ''type'' = Some (VStr ''payment'')) (service_rows base s)) =
     [paid_amount (service s)]"
  by (simp add: service_rows_def add_line_item_def row_amount_def filter_map o_def)

lemma payment_rows_of_blocks:
  "list_all2 (emitted self) ps blocks \<Longrightarrow>
   map row_amount (filter (\<lambda>r. r ''type'' = Some (VStr ''payment'')) (concat blocks)) =
     map (\<lambda>cs. paid_amount (service (snd cs))) ps"
proof (induction rule: list_all2_induct)
  case Nil
  then show ?case by simp
next
  case (Cons cs ps block blocks)
  then show ?case
    by (auto simp: emitted_def payment_rows_of_block)
qed

lemma snd_service_pairs: "map snd (service_pairs self) = concat (map services (claims self))"
  by (simp add: service_pairs_def map_concat o_def)

text \<open>
  Claim C4. When flattening succeeds, the sum of the \<^verbatim>\<open>amount\<close> column over the rows
  of type \<^verbatim>\<open>payment\<close> is the sum of the paid amounts of all services of all claims.
\<close>

theorem payment_sum:
  assumes "to_dataframe self = Inr rows"
  shows "sum_list (map row_amount (filter (\<lambda>r. r ''type'' = Some (VStr ''payment'')) rows)) =
         sum_list (map (\<lambda>s. paid_amount (service s)) (concat (map services (claims self))))"
proof -
  from to_dataframe_blocks [OF assms] obtain blocks where
    b: "rows = concat blocks" "list_all2 (emitted self) (service_pairs self) blocks"
    by blast
  have "map row_amount (filter (\<lambda>r. r ''type'' = Some (VStr ''payment'')) rows) =
        map (\<lambda>s. paid_amount (service s)) (map snd (service_pairs self))"
    using payment_rows_of_blocks [OF b(2)] b(1) by (simp add: o_def)
  then show ?thesis by (simp add: snd_service_pairs)
qed

theorem payment_sum_witness:
  "to_dataframe ex_ts = Inr ex_rows \<and>
   sum_list (map row_amount (filter (\<lambda>r. r ''type'' = Some (VStr ''payment'')) ex_rows)) = 50"
proof -
  have "sum_list (map (\<lambda>s. paid_amount (service s)) (concat (map services (claims ex_ts)))) = 50"
    by (simp add: ex_ts_def ex_claim_def ex_service_def)
  with payment_sum [OF to_dataframe_ex_ts] to_dataframe_ex_ts show ?thesis by simp
qed

subsection \<open>Absent header segments\<close>

lemma payer_interchange [simp]: "payer (self\<lparr>interchange := x\<rparr>) = payer self"
  by (simp add: payer_def)

lemma services_loop_interchange:
  "services_loop (self\<lparr>interchange := x\<rparr>) c ss data = services_loop self c ss data"
  by (induction ss arbitrary: data) (simp_all split: sum.splits)

lemma claims_loop_interchange:
  "claims_loop (self\<lparr>interchange := x\<rparr>) cs data = claims_loop self cs data"
  by (induction cs arbitrary: data) (simp_all add: services_loop_interchange split: sum.splits)

text \<open>
  Claim C5 as stated fails: with the financial information absent, one payer and one
  service, flattening raises on \<^verbatim>\<open>financial_information.transaction_date\<close> instead of
  producing rows with an absent \<^verbatim>\<open>transaction_date\<close>.
\<close>

theorem to_dataframe_absent_financial_information_fails:
  "interchange ex_ts_no_fi = None \<and> financial_information ex_ts_no_fi = None \<and>
   to_dataframe ex_ts_no_fi = Inl AttributeError"
  by (simp add: ex_ts_no_fi_def to_dataframe_def ex_ts_def ex_claim_def ex_service_def payer_def
      ex_payer_def ex_payee_def serialize_service_def)

text \<open>
  Claim C5, amended. Flattening never reads the interchange, so its absence changes
  nothing. With the financial information absent, flattening succeeds exactly when no
  claim has a service, and then returns no rows; otherwise it fails at the first service,
  with the assertion error when the payer is not unique and with the attribute error of
  the \<^verbatim>\<open>transaction_date\<close> read when it is.
\<close>

theorem to_dataframe_absent_header:
  "to_dataframe (self\<lparr>interchange := None\<rparr>) = to_dataframe self \<and>
   (financial_information self = None \<longrightarrow>
      to_dataframe self =
        (if \<forall>c \<in> set (claims self). services c = [] then Inr []
         else if \<exists>p. payer self = Inr p then Inl AttributeError
         else Inl AssertionError))"
proof (intro conjI impI)
  show "to_dataframe (self\<lparr>interchange := None\<rparr>) = to_dataframe self"
    by (simp add: to_dataframe_def claims_loop_interchange)
next
  assume fi: "financial_information self = None"
  show "to_dataframe self =
        (if \<forall>c \<in> set (claims self). services c = [] then Inr []
         else if \<exists>p. payer self = Inr p then Inl AttributeError
         else Inl AssertionError)"
  proof (cases "\<forall>c \<in> set (claims self). services c = []")
    case True
    then show ?thesis by (simp add: to_dataframe_def claims_loop_no_services)
  next
    case False
    then have "\<exists>c \<in> set (claims self). services c \<noteq> []" by blast
    from claims_loop_no_fi [OF fi this] False show ?thesis
      by (simp add: to_dataframe_def)
  qed
qed

theorem to_dataframe_absent_header_witness:
  "to_dataframe (ex_ts\<lparr>interchange := None\<rparr>) = to_dataframe ex_ts \<and>
   financial_information ex_ts_no_payer = None \<and>
   to_dataframe ex_ts_no_payer = Inr []"
proof -
  have a: "financial_information ex_ts_no_payer = None"
    by (simp add: ex_ts_no_payer_def)
  have b: "\<forall>c \<in> set (claims ex_ts_no_payer). services c = []"
    by (simp add: ex_ts_no_payer_def)
  from to_dataframe_absent_header [of ex_ts] have "to_dataframe (ex_ts\<lparr>interchange := None\<rparr>) = to_dataframe ex_ts"
    by (rule conjunct1)
  moreover from to_dataframe_absent_header [of ex_ts_no_payer] a b have "to_dataframe ex_ts_no_payer = Inr []"
    by simp
  ultimately show ?thesis using a by simp
qed

subsection \<open>No services\<close>

text \<open>
  Claim C10. When no claim has a service (in particular when there is no claim),
  flattening returns the empty row sequence, whatever the organizations are: the payer
  lookup is only made inside the loop over services, so a transaction set with no payer or
  several payers does not make it fail.
\<close>

theorem to_dataframe_no_services:
  assumes "\<forall>c \<in> set (claims self). services c = []"
  shows "to_dataframe self = Inr []"
  using assms by (simp add: to_dataframe_def claims_loop_no_services)

theorem to_dataframe_no_services_witness:
  "map services (claims ex_ts_no_payer) = [[]] \<and>
   payer ex_ts_no_payer = Inl AssertionError \<and>
   to_dataframe ex_ts_no_payer = Inr []"
proof -
  have a: "\<forall>c \<in> set (claims ex_ts_no_payer). services c = []"
    by (simp add: ex_ts_no_payer_def)
  have "payer ex_ts_no_payer = Inl AssertionError"
    by (simp add: payer_def ex_ts_no_payer_def ex_payee_def)
  moreover have "map services (claims ex_ts_no_payer) = [[]]"
    by (simp add: ex_ts_no_payer_def)
  ultimately show ?thesis using to_dataframe_no_services [OF a] by simp
qed

subsection \<open>The tokenizer\<close>

lemma str_split_nonempty: "str_split sep s \<noteq> []"
  by (subst str_split.simps) (simp split: list.splits)

lemma takeWhile_dropWhile_sep:
  "dropWhile (\<lambda>c. c \<noteq> sep) s = x # rest \<Longrightarrow> s = takeWhile (\<lambda>c. c \<noteq> sep) s @ sep # rest"
proof -
  assume a: "dropWhile (\<lambda>c. c \<noteq> sep) s = x # rest"
  then have "dropWhile (\<lambda>c. c \<noteq> sep) s \<noteq> []" by simp
  from hd_dropWhile [OF this] a have "x = sep" by simp
  with a takeWhile_dropWhile_id [of "\<lambda>c. c \<noteq> sep" s] show ?thesis by simp
qed

lemma str_split_Nil:
  "dropWhile (\<lambda>c. c \<noteq> sep) s = [] \<Longrightarrow> str_split sep s = [s]"
  by (subst str_split.simps) (simp only: list.case)

lemma str_split_Cons:
  "dropWhile (\<lambda>c. c \<noteq> sep) s = x # rest \<Longrightarrow>
   str_split sep s = takeWhile (\<lambda>c. c \<noteq> sep) s # str_split sep rest"
  by (subst str_split.simps) (simp only: list.case)

lemma join_Cons: "ys \<noteq> [] \<Longrightarrow> join sep (x # ys) = x @ sep @ join sep ys"
  by (cases ys) simp_all

lemma join_str_split: "join [sep] (str_split sep s) = s"
proof (induction sep s rule: str_split.induct)
  case (1 sep s)
  show ?case
  proof (cases "dropWhile (\<lambda>c. c \<noteq> sep) s")
    case Nil
    then show ?thesis by (simp add: str_split_Nil)
  next
    case (Cons x rest)
    from "1.IH" [OF Cons] have "join [sep] (str_split sep rest) = rest" .
    then have "join [sep] (str_split sep s) =
        takeWhile (\<lambda>c. c \<noteq> sep) s @ sep # rest"
      by (simp add: str_split_Cons [OF Cons] join_Cons str_split_nonempty)
    with takeWhile_dropWhile_sep [OF Cons] show ?thesis by simp
  qed
qed

lemma str_split_no_sep: "list_all (\<lambda>p. sep \<notin> set p) (str_split sep s)"
proof (induction sep s rule: str_split.induct)
  case (1 sep s)
  have tw: "sep \<notin> set (takeWhile (\<lambda>c. c \<noteq> sep) s)"
    by (auto dest: set_takeWhileD)
  show ?case
  proof (cases "dropWhile (\<lambda>c. c \<noteq> sep) s")
    case Nil
    then have "sep \<notin> set s" by auto
    then show ?thesis by (simp add: str_split_Nil [OF Nil])
  next
    case (Cons x rest)
    from "1.IH" [OF Cons] tw show ?thesis
      by (simp add: str_split_Cons [OF Cons])
  qed
qed

lemma count_list_takeWhile: "count_list (takeWhile (\<lambda>c. c \<noteq> sep) s) sep = 0"
  by (induction s) simp_all

lemma length_str_split: "length (str_split sep s) = Suc (count_list s sep)"
proof (induction sep s rule: str_split.induct)
  case (1 sep s)
  show ?case
  proof (cases "dropWhile (\<lambda>c. c \<noteq> sep) s")
    case Nil
    then have "sep \<notin> set s" by auto
    then have "count_list s sep = 0" by (simp add: count_list_0_iff)
    then show ?thesis by (simp add: str_split_Nil [OF Nil])
  next
    case (Cons x rest)
    from takeWhile_dropWhile_sep [OF Cons]
    have "count_list s sep = count_list (takeWhile (\<lambda>c. c \<noteq> sep) s @ sep # rest) sep"
      by simp
    then have "count_list s sep = Suc (count_list rest sep)"
      by (simp add: count_list_takeWhile)
    with "1.IH" [OF Cons] show ?thesis
      by (simp add: str_split_Cons [OF Cons])
  qed
qed

lemma strip_trimmed: "strip s = [] \<or> (\<not> isspace (hd (strip s)) \<and> \<not> isspace (last (strip s)))"
proof (cases "strip s = []")
  case True
  then show ?thesis by simp
next
  case False
  let ?a = "dropWhile isspace s"
  let ?b = "dropWhile isspace (rev ?a)"
  from False have b: "?b \<noteq> []" by (simp add: strip_def)
  have a: "?a \<noteq> []"
  proof
    assume "?a = []"
    then have "?b = []" by (simp only: rev.simps dropWhile.simps)
    with b show False by simp
  qed
  from b have "\<not> isspace (hd ?b)" by (rule hd_dropWhile)
  then have l: "\<not> isspace (last (strip s))"
    using b by (simp add: strip_def last_rev)
  have "?b = drop (length (takeWhile isspace (rev ?a))) (rev ?a)"
    by (rule dropWhile_eq_drop)
  then have "rev ?b = take (length ?a - length (takeWhile isspace (rev ?a))) ?a"
    by (simp add: rev_drop)
  moreover from b have "rev ?b \<noteq> []" by simp
  ultimately have "hd (rev ?b) = hd ?a"
    by (metis hd_take take_eq_Nil not_gr_zero)
  moreover from a have "\<not> isspace (hd ?a)" by (rule hd_dropWhile)
  ultimately have "\<not> isspace (hd (strip s))" by (simp add: strip_def)
  with l show ?thesis by simp
qed

text \<open>
  Claim C7 as stated fails: the tokenizer discards nothing. A text that ends with the
  delimiter, or has only white space between two delimiters, yields empty tokens, and they
  are handed to the dispatcher; the sequence the spec describes is shorter.
\<close>

theorem tokenize_keeps_empty_pieces:
  "tokenize ''ST*835~ ~SE*1~'' = [''ST*835'', [], ''SE*1'', []] \<and>
   tokenize_spec ''ST*835~ ~SE*1~'' = [''ST*835'', ''SE*1'']"
  by (simp add: tokenize_def tokenize_spec_def strip_def isspace_def str_split.simps)

text \<open>
  Claim C7, amended. The token sequence is the sequence of the pieces of the text between
  the delimiters, each trimmed, in order, empty pieces kept: joining the pieces with the
  delimiter gives the text back, no piece holds a delimiter, there is one token more than
  there are delimiters in the text, and every token is empty or starts and ends with a
  character that is not white space. Removing the empty tokens gives the sequence the
  spec describes.
\<close>

theorem tokenize_pieces:
  "tokenize file = map strip (str_split CHR ''~'' file) \<and>
   join ''~'' (str_split CHR ''~'' file) = file \<and>
   list_all (\<lambda>p. CHR ''~'' \<notin> set p) (str_split CHR ''~'' file) \<and>
   length (tokenize file) = Suc (count_list file CHR ''~'') \<and>
   list_all (\<lambda>t. t = [] \<or> (\<not> isspace (hd t) \<and> \<not> isspace (last t))) (tokenize file) \<and>
   filter (\<lambda>t. t \<noteq> []) (tokenize file) = tokenize_spec file"
proof -
  have "list_all (\<lambda>t. t = [] \<or> (\<not> isspace (hd t) \<and> \<not> isspace (last t))) (tokenize file)"
    unfolding tokenize_def list_all_iff using strip_trimmed by auto
  then show ?thesis
    using join_str_split [of "CHR ''~''" "file"] str_split_no_sep [of "CHR ''~''" "file"]
    by (simp add: tokenize_def tokenize_spec_def length_str_split)
qed

theorem tokenize_pieces_witness:
  "length (tokenize ''ST*835~ ~SE*1~'') = 4 \<and>
   filter (\<lambda>t. t \<noteq> []) (tokenize ''ST*835~ ~SE*1~'') = tokenize_spec ''ST*835~ ~SE*1~''"
proof -
  have "Suc (count_list ''ST*835~ ~SE*1~'' CHR ''~'') = 4" by simp
  moreover from tokenize_pieces [of "''ST*835~ ~SE*1~''"] have
    "length (tokenize ''ST*835~ ~SE*1~'') = Suc (count_list ''ST*835~ ~SE*1~'' CHR ''~'')"
    "filter (\<lambda>t. t \<noteq> []) (tokenize ''ST*835~ ~SE*1~'') = tokenize_spec ''ST*835~ ~SE*1~''"
    by blast+
  ultimately show ?thesis by (simp only:)
qed

subsection \<open>One step of the builder\<close>

lemma next_segment_None: "next_segment seg cur = None \<longleftrightarrow> seg = None \<and> cur = []"
  by (simp add: next_segment_def split: option.splits list.splits)

lemma next_segment_Some:
  "next_segment seg cur = Some (s, rest) \<longleftrightarrow> remaining (seg, cur, ts) = s # rest"
  by (auto simp: next_segment_def remaining_def split: option.splits list.splits)

lemma build_step_exhausted:
  "next_segment seg cur = None \<Longrightarrow> build_step K (seg, cur, ts) = None"
  by (simp add: build_step_def build_attribute_def)

lemma build_step_Some:
  "next_segment seg cur = Some (s, rest) \<Longrightarrow>
   build_step K (seg, cur, ts) =
     (if find_identifier K s = InterchangeSegment_identification K then
        Some (None, rest, ts\<lparr>interchange := Some (InterchangeSegment K s)\<rparr>)
      else if find_identifier K s = FinancialInformationSegment_identification K then
        Some (None, rest, ts\<lparr>financial_information := Some (FinancialInformationSegment K s)\<rparr>)
      else if find_identifier K s = OrganizationLoop_initiating_identifier K then
        (case OrganizationLoop_build K s rest of
           (v, cur', lo) \<Rightarrow> Some (lo, cur', ts\<lparr>organizations := organizations ts @ [v]\<rparr>))
      else if find_identifier K s = ClaimLoop_initiating_identifier K then
        (case ClaimLoop_build K s rest of
           (v, cur', lo) \<Rightarrow> Some (lo, cur', ts\<lparr>claims := claims ts @ [v]\<rparr>))
      else Some (None, rest, ts))"
  by (simp add: build_step_def build_attribute_def Let_def store_def split: prod.splits)

lemma build_step_None: "build_step K (seg, cur, ts) = None \<longleftrightarrow> seg = None \<and> cur = []"
proof (cases "next_segment seg cur")
  case None
  then show ?thesis
    by (simp add: build_step_exhausted) (simp add: next_segment_None)
next
  case (Some a)
  then obtain s rest where n: "next_segment seg cur = Some (s, rest)" by (cases a) simp
  then have "\<not> (seg = None \<and> cur = [])"
    using next_segment_None [of seg cur] by simp
  moreover have "build_step K (seg, cur, ts) \<noteq> None"
    by (simp add: build_step_Some [OF n] split: prod.splits)
  ultimately show ?thesis by blast
qed

lemma build_step_dropped:
  assumes "next_segment seg cur = Some (s, rest)"
    and "find_identifier K s \<noteq> InterchangeSegment_identification K"
    and "find_identifier K s \<noteq> FinancialInformationSegment_identification K"
    and "find_identifier K s \<noteq> OrganizationLoop_initiating_identifier K"
    and "find_identifier K s \<noteq> ClaimLoop_initiating_identifier K"
  shows "build_attribute K seg cur = \<lparr>key_value = None, segment = None, segments = Some rest\<rparr>"
    and "build_step K (seg, cur, ts) = Some (None, rest, ts)"
  using assms by (simp_all add: build_step_Some) (simp add: build_attribute_def)

lemma tokenize_ex_doc: "tokenize ex_doc = ex_tokens"
  by (simp add: tokenize_def ex_doc_def ex_tokens_def strip_def isspace_def str_split.simps)



text \<open>
  Claim C6. A segment whose identifier is none of the four that the dispatcher knows is
  dropped, whether it is the pending segment or the next token of the cursor:
  \<open>build_attribute\<close> answers with no key, no value and no pending segment, and hands the
  cursor back; the step leaves the transaction set as it was and goes on (it is not the
  \<^verbatim>\<open>break\<close>, and no exception is raised); the rest of the parse is the parse of the
  remaining tokens.
\<close>

theorem unrecognized_segment_dropped:
  assumes "find_identifier K s \<noteq> InterchangeSegment_identification K"
    and "find_identifier K s \<noteq> FinancialInformationSegment_identification K"
    and "find_identifier K s \<noteq> OrganizationLoop_initiating_identifier K"
    and "find_identifier K s \<noteq> ClaimLoop_initiating_identifier K"
  shows "build_attribute K (Some s) cursor =
           \<lparr>key_value = None, segment = None, segments = Some cursor\<rparr> \<and>
         build_attribute K None (s # cursor) =
           \<lparr>key_value = None, segment = None, segments = Some cursor\<rparr> \<and>
         build_step K (Some s, cursor, ts) = Some (None, cursor, ts) \<and>
         build_step K (None, s # cursor, ts) = Some (None, cursor, ts) \<and>
         build_loop K (Some s, cursor, ts) = build_loop K (None, cursor, ts) \<and>
         build_loop K (None, s # cursor, ts) = build_loop K (None, cursor, ts)"
proof -
  have p: "next_segment (Some s) cursor = Some (s, cursor)"
    and q: "next_segment None (s # cursor) = Some (s, cursor)"
    by (simp_all add: next_segment_def)
  note a = build_step_dropped [OF p assms] and b = build_step_dropped [OF q assms]
  have "build_loop K (Some s, cursor, ts) = build_loop K (None, cursor, ts)"
    by (subst build_loop.simps) (simp add: a(2))
  moreover have "build_loop K (None, s # cursor, ts) = build_loop K (None, cursor, ts)"
    by (subst build_loop.simps) (simp add: b(2))
  ultimately show ?thesis using a b by simp
qed

theorem unrecognized_segment_dropped_witness:
  "build_step ex_K (Some ''ZZ*x'', [[], []], ex_built) = Some (None, [[], []], ex_built) \<and>
   build_step ex_K (None, [[], []], ex_built) = Some (None, [[]], ex_built)"
proof -
  have "find_identifier ex_K ''ZZ*x'' \<noteq> InterchangeSegment_identification ex_K"
    "find_identifier ex_K ''ZZ*x'' \<noteq> FinancialInformationSegment_identification ex_K"
    "find_identifier ex_K ''ZZ*x'' \<noteq> OrganizationLoop_initiating_identifier ex_K"
    "find_identifier ex_K ''ZZ*x'' \<noteq> ClaimLoop_initiating_identifier ex_K"
    by (simp_all add: ex_K_def ex_find_identifier_def)
  note a = unrecognized_segment_dropped [OF this, of "[[], []]" ex_built]
  have "find_identifier ex_K [] \<noteq> InterchangeSegment_identification ex_K"
    "find_identifier ex_K [] \<noteq> FinancialInformationSegment_identification ex_K"
    "find_identifier ex_K [] \<noteq> OrganizationLoop_initiating_identifier ex_K"
    "find_identifier ex_K [] \<noteq> ClaimLoop_initiating_identifier ex_K"
    by (simp_all add: ex_K_def ex_find_identifier_def)
  note b = unrecognized_segment_dropped [OF this, of "[[]]" ex_built]
  from a b show ?thesis by simp
qed

subsection \<open>Termination\<close>




lemma loop_contractD:
  assumes "loop_contract K b" "b s cur = (v, cur', lo)"
  shows "\<exists>swallowed.
           cur = swallowed @ (case lo of None \<Rightarrow> [] | Some l \<Rightarrow> [l]) @ cur' \<and>
           (lo = None \<longrightarrow> cur' = []) \<and>
           list_all (\<lambda>t. \<not> is_interchange K t \<and> \<not> is_financial_information K t) swallowed"
  using assms unfolding loop_contract_def by blast


lemma remaining_simps:
  "remaining (None, cur, ts) = cur"
  "remaining (Some s, cur, ts) = s # cur"
  by (simp_all add: remaining_def)

lemma remaining_leftover:
  "remaining (lo, cur, ts) = (case lo of None \<Rightarrow> [] | Some l \<Rightarrow> [l]) @ cur"
  by (simp add: remaining_def)

lemma scan_loop_split:
  "scan_loop owns cur = (kept, cur', lo) \<Longrightarrow>
   cur = kept @ (case lo of None \<Rightarrow> [] | Some l \<Rightarrow> [l]) @ cur' \<and>
   (lo = None \<longrightarrow> cur' = []) \<and> list_all owns kept"
proof (induction cur arbitrary: kept cur' lo)
  case Nil
  then show ?case by simp
next
  case (Cons t rest)
  show ?case
  proof (cases "owns t")
    case True
    obtain k c l where s: "scan_loop owns rest = (k, c, l)" by (cases "scan_loop owns rest")
    with True Cons.prems have "kept = t # k" "cur' = c" "lo = l" by simp_all
    with Cons.IH [OF s] True show ?thesis by simp
  next
    case False
    with Cons.prems show ?thesis by auto
  qed
qed

lemma ex_OrganizationLoop_contract: "loop_contract ex_K ex_OrganizationLoop_build"
  unfolding loop_contract_def
proof (intro allI impI)
  fix s cur v cur' lo
  assume b: "ex_OrganizationLoop_build s cur = (v, cur', lo)"
  let ?owns = "\<lambda>t. ex_find_identifier t = ''N3'' \<or> ex_find_identifier t = ''N4''"
  obtain kept where k: "scan_loop ?owns cur = (kept, cur', lo)"
    using b by (cases "scan_loop ?owns cur") (simp add: ex_OrganizationLoop_build_def)
  from scan_loop_split [OF k] have
    "cur = kept @ (case lo of None \<Rightarrow> [] | Some l \<Rightarrow> [l]) @ cur'" "lo = None \<longrightarrow> cur' = []"
    "list_all ?owns kept" by simp_all
  moreover from this(3) have
    "list_all (\<lambda>t. \<not> is_interchange ex_K t \<and> \<not> is_financial_information ex_K t) kept"
    by (rule list.pred_mono_strong)
      (auto simp: is_interchange_def is_financial_information_def ex_K_def)
  ultimately show "\<exists>swallowed.
     cur = swallowed @ (case lo of None \<Rightarrow> [] | Some l \<Rightarrow> [l]) @ cur' \<and>
     (lo = None \<longrightarrow> cur' = []) \<and>
     list_all (\<lambda>t. \<not> is_interchange ex_K t \<and> \<not> is_financial_information ex_K t) swallowed"
    by blast
qed

lemma ex_ClaimLoop_contract: "loop_contract ex_K ex_ClaimLoop_build"
  unfolding loop_contract_def
proof (intro allI impI)
  fix s cur v cur' lo
  assume b: "ex_ClaimLoop_build s cur = (v, cur', lo)"
  let ?owns = "\<lambda>t. ex_find_identifier t = ''NM1'' \<or> ex_find_identifier t = ''SVC''"
  obtain kept where k: "scan_loop ?owns cur = (kept, cur', lo)"
    using b by (cases "scan_loop ?owns cur") (simp add: ex_ClaimLoop_build_def)
  from scan_loop_split [OF k] have
    "cur = kept @ (case lo of None \<Rightarrow> [] | Some l \<Rightarrow> [l]) @ cur'" "lo = None \<longrightarrow> cur' = []"
    "list_all ?owns kept" by simp_all
  moreover from this(3) have
    "list_all (\<lambda>t. \<not> is_interchange ex_K t \<and> \<not> is_financial_information ex_K t) kept"
    by (rule list.pred_mono_strong)
      (auto simp: is_interchange_def is_financial_information_def ex_K_def)
  ultimately show "\<exists>swallowed.
     cur = swallowed @ (case lo of None \<Rightarrow> [] | Some l \<Rightarrow> [l]) @ cur' \<and>
     (lo = None \<longrightarrow> cur' = []) \<and>
     list_all (\<lambda>t. \<not> is_interchange ex_K t \<and> \<not> is_financial_information ex_K t) swallowed"
    by blast
qed






subsection \<open>Repeated header segments\<close>

lemma build_step_headers:
  assumes org: "loop_contract K (OrganizationLoop_build K)"
    and clm: "loop_contract K (ClaimLoop_build K)"
    and ne: "InterchangeSegment_identification K \<noteq> FinancialInformationSegment_identification K"
    and step: "build_step K (seg, cur, ts) = Some (seg', cur', ts')"
  shows "\<exists>s swallowed.
           remaining (seg, cur, ts) = s # swallowed @ remaining (seg', cur', ts') \<and>
           list_all (\<lambda>t. \<not> is_interchange K t \<and> \<not> is_financial_information K t) swallowed \<and>
           interchange ts' =
             (if is_interchange K s then Some (InterchangeSegment K s) else interchange ts) \<and>
           financial_information ts' =
             (if is_financial_information K s then Some (FinancialInformationSegment K s)
              else financial_information ts)"
proof -
  have "next_segment seg cur \<noteq> None"
  proof
    assume "next_segment seg cur = None"
    from build_step_exhausted [OF this, of K ts] step show False by simp
  qed
  then obtain p where "next_segment seg cur = Some p" by blast
  then obtain s rest where n: "next_segment seg cur = Some (s, rest)" by (cases p) simp
  then have r: "remaining (seg, cur, ts) = s # rest"
    by (simp add: next_segment_Some [of _ _ _ _ ts])
  note eq = build_step_Some [OF n, of K ts]
  consider
    (isa) "find_identifier K s = InterchangeSegment_identification K"
  | (fin) "find_identifier K s \<noteq> InterchangeSegment_identification K"
      "find_identifier K s = FinancialInformationSegment_identification K"
  | (org) "find_identifier K s \<noteq> InterchangeSegment_identification K"
      "find_identifier K s \<noteq> FinancialInformationSegment_identification K"
      "find_identifier K s = OrganizationLoop_initiating_identifier K"
  | (clm) "find_identifier K s \<noteq> InterchangeSegment_identification K"
      "find_identifier K s \<noteq> FinancialInformationSegment_identification K"
      "find_identifier K s \<noteq> OrganizationLoop_initiating_identifier K"
      "find_identifier K s = ClaimLoop_initiating_identifier K"
  | (other) "find_identifier K s \<noteq> InterchangeSegment_identification K"
      "find_identifier K s \<noteq> FinancialInformationSegment_identification K"
      "find_identifier K s \<noteq> OrganizationLoop_initiating_identifier K"
      "find_identifier K s \<noteq> ClaimLoop_initiating_identifier K"
    by blast
  then show ?thesis
  proof cases
    case isa
    with step eq have "seg' = None" "cur' = rest"
      "ts' = ts\<lparr>interchange := Some (InterchangeSegment K s)\<rparr>"
      by simp_all
    with r isa ne have
      "remaining (seg, cur, ts) = s # [] @ remaining (seg', cur', ts') \<and>
       list_all (\<lambda>t. \<not> is_interchange K t \<and> \<not> is_financial_information K t) [] \<and>
       interchange ts' =
         (if is_interchange K s then Some (InterchangeSegment K s) else interchange ts) \<and>
       financial_information ts' =
         (if is_financial_information K s then Some (FinancialInformationSegment K s)
          else financial_information ts)"
      by (simp add: remaining_simps is_interchange_def is_financial_information_def)
    then show ?thesis by blast
  next
    case fin
    with step eq have "seg' = None" "cur' = rest"
      "ts' = ts\<lparr>financial_information := Some (FinancialInformationSegment K s)\<rparr>"
      by simp_all
    with r fin have
      "remaining (seg, cur, ts) = s # [] @ remaining (seg', cur', ts') \<and>
       list_all (\<lambda>t. \<not> is_interchange K t \<and> \<not> is_financial_information K t) [] \<and>
       interchange ts' =
         (if is_interchange K s then Some (InterchangeSegment K s) else interchange ts) \<and>
       financial_information ts' =
         (if is_financial_information K s then Some (FinancialInformationSegment K s)
          else financial_information ts)"
      by (simp add: remaining_simps is_interchange_def is_financial_information_def)
    then show ?thesis by blast
  next
    case org
    obtain v c l where b: "OrganizationLoop_build K s rest = (v, c, l)"
      by (cases "OrganizationLoop_build K s rest")
    with step eq org have st': "seg' = l" "cur' = c"
      "ts' = ts\<lparr>organizations := organizations ts @ [v]\<rparr>"
      by simp_all
    from loop_contractD [OF assms(1) b] obtain swallowed where
      sw: "rest = swallowed @ (case l of None \<Rightarrow> [] | Some l \<Rightarrow> [l]) @ c"
        "list_all (\<lambda>t. \<not> is_interchange K t \<and> \<not> is_financial_information K t) swallowed"
      by blast
    from r sw(1) st' have "remaining (seg, cur, ts) = s # swallowed @ remaining (seg', cur', ts')"
      by (simp add: remaining_leftover)
    with sw(2) st' org show ?thesis
      by (auto simp: is_interchange_def is_financial_information_def)
  next
    case clm
    obtain v c l where b: "ClaimLoop_build K s rest = (v, c, l)"
      by (cases "ClaimLoop_build K s rest")
    with step eq clm have st': "seg' = l" "cur' = c"
      "ts' = ts\<lparr>claims := claims ts @ [v]\<rparr>"
      by simp_all
    from loop_contractD [OF assms(2) b] obtain swallowed where
      sw: "rest = swallowed @ (case l of None \<Rightarrow> [] | Some l \<Rightarrow> [l]) @ c"
        "list_all (\<lambda>t. \<not> is_interchange K t \<and> \<not> is_financial_information K t) swallowed"
      by blast
    from r sw(1) st' have "remaining (seg, cur, ts) = s # swallowed @ remaining (seg', cur', ts')"
      by (simp add: remaining_leftover)
    with sw(2) st' clm show ?thesis
      by (auto simp: is_interchange_def is_financial_information_def)
  next
    case other
    with step eq have "seg' = None" "cur' = rest" "ts' = ts"
      by simp_all
    with r other have
      "remaining (seg, cur, ts) = s # [] @ remaining (seg', cur', ts') \<and>
       list_all (\<lambda>t. \<not> is_interchange K t \<and> \<not> is_financial_information K t) [] \<and>
       interchange ts' =
         (if is_interchange K s then Some (InterchangeSegment K s) else interchange ts) \<and>
       financial_information ts' =
         (if is_financial_information K s then Some (FinancialInformationSegment K s)
          else financial_information ts)"
      by (simp add: remaining_simps is_interchange_def is_financial_information_def)
    then show ?thesis by blast
  qed
qed

lemma filter_swallowed:
  "list_all (\<lambda>t. \<not> P t \<and> \<not> Q t) xs \<Longrightarrow> filter P xs = [] \<and> filter Q xs = []"
  by (induction xs) auto

lemma last_header:
  "(if filter P (s # sw @ r) = [] then old
    else Some (f (last (filter P (s # sw @ r))))) =
   (if filter P r = [] then (if P s then Some (f s) else old)
    else Some (f (last (filter P r))))"
  if "filter P sw = []"
  using that by simp

lemma build_loop_headers:
  assumes org: "loop_contract K (OrganizationLoop_build K)"
    and clm: "loop_contract K (ClaimLoop_build K)"
    and ne: "InterchangeSegment_identification K \<noteq> FinancialInformationSegment_identification K"
  shows "\<exists>ts'. build_loop K st = Some ts' \<and>
     interchange ts' =
       (if filter (is_interchange K) (remaining st) = [] then interchange (snd (snd st))
        else Some (InterchangeSegment K (last (filter (is_interchange K) (remaining st))))) \<and>
     financial_information ts' =
       (if filter (is_financial_information K) (remaining st) = []
        then financial_information (snd (snd st))
        else Some (FinancialInformationSegment K
                     (last (filter (is_financial_information K) (remaining st)))))"
proof (induction "length (remaining st)" arbitrary: st rule: less_induct)
  case less
  obtain seg cur ts where st: "st = (seg, cur, ts)" by (cases st)
  show ?case
  proof (cases "build_step K st")
    case None
    with st have "seg = None" "cur = []" by (simp_all add: build_step_None)
    with st have "remaining st = []" by (simp add: remaining_def)
    moreover from None have "build_loop K st = Some (snd (snd st))"
      by (subst build_loop.simps) simp
    ultimately show ?thesis by simp
  next
    case (Some st')
    obtain seg' cur' ts' where st': "st' = (seg', cur', ts')" by (cases st')
    from Some st st' have step: "build_step K (seg, cur, ts) = Some (seg', cur', ts')" by simp
    from build_step_headers [OF org clm ne step] obtain s sw where
      r: "remaining st = s # sw @ remaining st'"
      and sw: "list_all (\<lambda>t. \<not> is_interchange K t \<and> \<not> is_financial_information K t) sw"
      and i: "interchange ts' =
             (if is_interchange K s then Some (InterchangeSegment K s) else interchange ts)"
      and f: "financial_information ts' =
             (if is_financial_information K s then Some (FinancialInformationSegment K s)
              else financial_information ts)"
      using st st' by auto
    from r have "length (remaining st') < length (remaining st)" by simp
    from less [OF this] obtain ts'' where
      b: "build_loop K st' = Some ts''"
      and i': "interchange ts'' =
         (if filter (is_interchange K) (remaining st') = [] then interchange (snd (snd st'))
          else Some (InterchangeSegment K (last (filter (is_interchange K) (remaining st')))))"
      and f': "financial_information ts'' =
         (if filter (is_financial_information K) (remaining st') = []
          then financial_information (snd (snd st'))
          else Some (FinancialInformationSegment K
                       (last (filter (is_financial_information K) (remaining st')))))"
      by blast
    from Some b have l: "build_loop K st = Some ts''"
      by (subst build_loop.simps) simp
    from filter_swallowed [OF sw] have
      e: "filter (is_interchange K) sw = []" "filter (is_financial_information K) sw = []"
      by simp_all
    have "interchange ts'' =
       (if filter (is_interchange K) (remaining st) = [] then interchange (snd (snd st))
        else Some (InterchangeSegment K (last (filter (is_interchange K) (remaining st)))))"
      unfolding r last_header [OF e(1)] using i' i st st' by simp
    moreover have "financial_information ts'' =
       (if filter (is_financial_information K) (remaining st) = []
        then financial_information (snd (snd st))
        else Some (FinancialInformationSegment K
                     (last (filter (is_financial_information K) (remaining st)))))"
      unfolding r last_header [OF e(2)] using f' f st st' by simp
    ultimately show ?thesis using l by blast
  qed
qed

text \<open>
  Claim C9. When the loop builders keep to their contract (they take tokens from the front
  of the cursor and keep no Interchange or FinancialInformation segment for their loop)
  and the two identification tags differ, the build of every text succeeds, and the
  interchange of the result is the one constructed from the last token with the
  Interchange identification, in document order; likewise the financial information. So
  when there are several such segments the earlier ones are overwritten. With no such
  segment the field stays \<^verbatim>\<open>None\<close>.
\<close>

theorem last_header_wins:
  assumes "loop_contract K (OrganizationLoop_build K)"
    and "loop_contract K (ClaimLoop_build K)"
    and "InterchangeSegment_identification K \<noteq> FinancialInformationSegment_identification K"
  shows "\<exists>ts. build K file = Some ts \<and>
     interchange ts =
       (if filter (is_interchange K) (tokenize file) = [] then None
        else Some (InterchangeSegment K (last (filter (is_interchange K) (tokenize file))))) \<and>
     financial_information ts =
       (if filter (is_financial_information K) (tokenize file) = [] then None
        else Some (FinancialInformationSegment K
                     (last (filter (is_financial_information K) (tokenize file)))))"
  using build_loop_headers [OF assms,
      of "(None, tokenize file,
           \<lparr>interchange = None, financial_information = None, claims = [], organizations = []\<rparr>)"]
  unfolding build_def remaining_simps snd_conv
  by (simp only: TransactionSet.simps)

theorem last_header_wins_witness:
  "loop_contract ex_K (OrganizationLoop_build ex_K) \<and>
   loop_contract ex_K (ClaimLoop_build ex_K) \<and>
   filter (is_interchange ex_K) (tokenize ex_doc) = [''ISA*a'', ''ISA*b''] \<and>
   (\<exists>ts. build ex_K ex_doc = Some ts \<and> interchange ts = Some ''ISA*b'' \<and>
      financial_information ts = Some \<lparr>transaction_date = ''20190315''\<rparr>)"
proof -
  have a: "loop_contract ex_K (OrganizationLoop_build ex_K)"
    using ex_OrganizationLoop_contract by (simp add: ex_K_def)
  have b: "loop_contract ex_K (ClaimLoop_build ex_K)"
    using ex_ClaimLoop_contract by (simp add: ex_K_def)
  have c: "InterchangeSegment_identification ex_K \<noteq> FinancialInformationSegment_identification ex_K"
    by (simp add: ex_K_def)
  have i: "filter (is_interchange ex_K) (tokenize ex_doc) = [''ISA*a'', ''ISA*b'']"
    by (simp add: tokenize_ex_doc ex_tokens_def is_interchange_def ex_K_def ex_find_identifier_def)
  have f: "filter (is_financial_information ex_K) (tokenize ex_doc) = [''BPR*20190315'']"
    by (simp add: tokenize_ex_doc ex_tokens_def is_financial_information_def ex_K_def
        ex_find_identifier_def)
  have m: "InterchangeSegment ex_K ''ISA*b'' = ''ISA*b''"
    "FinancialInformationSegment ex_K ''BPR*20190315'' = \<lparr>transaction_date = ''20190315''\<rparr>"
    by (simp_all add: ex_K_def)
  have "\<exists>ts. build ex_K ex_doc = Some ts \<and> interchange ts = Some ''ISA*b'' \<and>
      financial_information ts = Some \<lparr>transaction_date = ''20190315''\<rparr>"
    using last_header_wins [OF a b c, of ex_doc] unfolding i f by (simp add: m)
  with a b i show ?thesis by (intro conjI)
qed

subsection \<open>The payer is not looked up while parsing\<close>

text \<open>
  The builder never calls \<open>payer\<close>: a text with no organization at all is parsed into a
  transaction set, and only the lookup on that transaction set fails.
\<close>

lemma build_without_payer:
  "\<exists>ts. build ex_K ''CLP*1~'' = Some ts \<and> organizations ts = [] \<and>
     payer ts = Inl AssertionError"
proof -
  let ?ts = "\<lparr>interchange = None, financial_information = None,
           claims = [\<lparr>claim = \<lparr>index = ''1''\<rparr>,
                      patient = \<lparr>entity_segment.name = []\<rparr>,
                      claim_statement_period_start = None,
                      claim_statement_period_end = None,
                      rendering_provider = None,
                      services = []\<rparr>],
           organizations = []\<rparr> :: (string, string) TransactionSet"
  have t: "tokenize ''CLP*1~'' = [''CLP*1'', []]"
    by (simp add: tokenize_def strip_def isspace_def str_split.simps)
  have "build ex_K ''CLP*1~'' = Some ?ts"
    unfolding build_def t
    by (simp add: build_loop.simps build_step_def build_attribute_def next_segment_def store_def
        ex_K_def ex_find_identifier_def ex_ClaimLoop_build_def)
  moreover have "organizations ?ts = []" "payer ?ts = Inl AssertionError"
    by (simp_all add: payer_def)
  ultimately show ?thesis by (intro exI [of _ ?ts] conjI)
qed

end
